(* ===== verification/Prelude.thy ===== *)
theory Prelude
  imports Main "HOL-Library.Sublist" "HOL-Library.AList"
begin

text \<open>
  Shared vocabulary of the development: the Python exceptions the scripts raise or
  catch, the outcome of a \<^verbatim>\<open>try\<close> body (the state it leaves behind and the exception it
  raised, if any), Python's substring test, and the abstract specification of
  episode grouping (\<open>runs\<close>) that the transcription loops of
  \<^verbatim>\<open>clean_dataset.py\<close> and \<^verbatim>\<open>merge_datasets.py\<close> refine.
\<close>

named_theorems outcome_simps "evaluation rules of try-body outcomes"
named_theorems runs_simps "rewrite rules of the episode-grouping specification"

subsection \<open>Exceptions\<close>

text \<open>
  The exceptions the modelled code raises itself (\<open>KeyError\<close> of a missing dict key,
  \<open>NameError\<close> of an unbound name, \<open>AttributeError\<close>, \<open>ValueError\<close>,
  \<open>RuntimeError\<close>) and those of the external dataset library (\<open>LibraryError\<close>: a failed
  parquet read, a corrupted video frame).
\<close>

datatype exc =
    KeyError string
  | NameError string
  | AttributeError string
  | ValueError string
  | RuntimeError string
  | TypeError string
  | LibraryError string

subsection \<open>Outcomes of a try body\<close>

text \<open>
  A Python statement sequence mutates state and may raise half-way; the mutations made
  before the raise stay visible. Its outcome is the state it leaves and the exception
  it raised, if any.
\<close>

type_synonym 's outcome = "'s \<times> exc option"

definition raise_at :: "'s \<Rightarrow> exc \<Rightarrow> 's outcome" where
  "raise_at s e = (s, Some e)"

definition ok :: "'s \<Rightarrow> 's outcome" where
  "ok s = (s, None)"

fun obind :: "'s outcome \<Rightarrow> ('s \<Rightarrow> 's outcome) \<Rightarrow> 's outcome" where
  "obind (s, Some e) f = (s, Some e)"
| "obind (s, None) f = f s"

text \<open>Running a fallible library call inside the body: its exception aborts the body.\<close>

definition olift :: "exc + 'a \<Rightarrow> 's \<Rightarrow> ('a \<Rightarrow> 's outcome) \<Rightarrow> 's outcome" where
  "olift r s f = (case r of Inl e \<Rightarrow> raise_at s e | Inr a \<Rightarrow> f a)"

subsection \<open>Python's substring test\<close>

text \<open>
  \<^verbatim>\<open>p in s\<close> on strings: \<open>p\<close> occurs contiguously in \<open>s\<close>; the empty string occurs
  in every string.
\<close>

fun str_contains :: "string \<Rightarrow> string \<Rightarrow> bool" where
  "str_contains p [] = (p = [])"
| "str_contains p (c # s) = (prefix p (c # s) \<or> str_contains p s)"

subsection \<open>Episode grouping: the abstract specification\<close>

text \<open>
  \<open>runs xs\<close> splits a sequence of keyed items into its maximal runs of adjacent items
  with equal keys, each run paired with its key. This is the contract of the
  transcription loops: one sealed episode per maximal run of equal
  \<open>episode_index\<close> values, in source order.
\<close>

fun runs :: "('k \<times> 'a) list \<Rightarrow> ('k \<times> 'a list) list" where
  "runs [] = []"
| "runs ((k, a) # xs) =
     (case runs xs of
        [] \<Rightarrow> [(k, [a])]
      | (k', as) # rs \<Rightarrow> if k = k' then (k, a # as) # rs else (k, [a]) # (k', as) # rs)"

subsection \<open>Outcome evaluation\<close>

lemma olift_Inl [simp, outcome_simps]: "olift (Inl e) s f = (s, Some e)"
  by (simp add: olift_def raise_at_def)

lemma olift_Inr [simp, outcome_simps]: "olift (Inr a) s f = f a"
  by (simp add: olift_def)

lemma obind_ok [simp, outcome_simps]: "obind (ok s) f = f s"
  by (simp add: ok_def)

lemma obind_raise [simp, outcome_simps]: "obind (raise_at s e) f = raise_at s e"
  by (simp add: raise_at_def)

lemma raise_at_eq [simp, outcome_simps]: "raise_at s e = (s, Some e)"
  by (simp add: raise_at_def)

lemma ok_eq [simp, outcome_simps]: "ok s = (s, None)"
  by (simp add: ok_def)

subsection \<open>Properties of the grouping\<close>

lemma runs_Nil_iff [simp, runs_simps]: "runs xs = [] \<longleftrightarrow> xs = []"
  by (induction xs rule: runs.induct) (auto split: list.splits)

lemma runs_snoc [runs_simps]:
  "runs (xs @ [(k, a)]) =
     (if xs = [] then [(k, [a])]
      else if fst (last (runs xs)) = k
           then butlast (runs xs) @ [(k, snd (last (runs xs)) @ [a])]
           else runs xs @ [(k, [a])])"
proof (induction xs rule: runs.induct)
  case 1
  then show ?case by simp
next
  case (2 k' a' xs)
  then show ?case
    by (cases "runs xs") (auto split: list.splits if_splits)
qed

lemma runs_keys [runs_simps]: "map fst (runs xs) = remdups_adj (map fst xs)"
  by (induction xs rule: runs.induct) (auto simp: remdups_adj_Cons split: list.splits)

lemma runs_concat [runs_simps]: "concat (map snd (runs xs)) = map snd xs"
  by (induction xs rule: runs.induct) (auto split: list.splits)

lemma runs_nonempty [runs_simps]: "r \<in> set (runs xs) \<Longrightarrow> snd r \<noteq> []"
  by (induction xs arbitrary: r rule: runs.induct) (auto split: list.splits if_splits)

lemma runs_members [runs_simps]: "(k, bs) \<in> set (runs xs) \<Longrightarrow> y \<in> set bs \<Longrightarrow> (k, y) \<in> set xs"
  by (induction xs arbitrary: k bs rule: runs.induct) (fastforce split: list.splits if_splits)+

lemma distinct_remdups_adj_sorted: "sorted xs \<Longrightarrow> distinct (remdups_adj xs)"
proof (induction xs rule: remdups_adj.induct)
  case (3 x y xs)
  then show ?case
    by auto
qed simp_all

lemma length_remdups_adj_sorted: "sorted xs \<Longrightarrow> length (remdups_adj xs) = card (set xs)"
  using distinct_remdups_adj_sorted distinct_card by fastforce

lemma str_contains_sublist: "str_contains p s \<longleftrightarrow> sublist p s"
  by (induction s) (auto simp: sublist_Cons_right)

lemma length_runs_append:
  assumes "xs \<noteq> []" and "ys \<noteq> []"
  shows "length (runs (xs @ ys)) =
           length (runs xs) + length (runs ys) - (if fst (last xs) = fst (hd ys) then 1 else 0)"
proof -
  obtain a x where a: "map fst xs = a @ [x]" and x: "x = fst (last xs)"
    using assms(1) by (metis last_map map_is_Nil_conv snoc_eq_iff_butlast)
  obtain y b where b: "map fst ys = y # b" and y: "y = fst (hd ys)"
    using assms(2) by (cases ys) auto
  have "remdups_adj ((a @ [x]) @ y # b) = remdups_adj ((a @ [x]) @ [y]) @ tl (remdups_adj (y # b))"
    by (rule remdups_adj_append)
  also have "remdups_adj ((a @ [x]) @ [y]) = remdups_adj (a @ [x]) @ (if x = y then [] else [y])"
    using remdups_adj_append_two [of a x y] by simp
  finally have "length (remdups_adj (map fst (xs @ ys))) =
      length (remdups_adj (a @ [x])) + (if x = y then 0 else 1) + (length (remdups_adj (y # b)) - 1)"
    using a b by simp
  moreover have "length (remdups_adj (y # b)) \<ge> 1"
    using remdups_adj_length_ge1 [of "y # b"] by simp
  ultimately show ?thesis
    using a b x y arg_cong [OF runs_keys [of "xs @ ys"], of length]
      arg_cong [OF runs_keys [of xs], of length] arg_cong [OF runs_keys [of ys], of length]
    by auto
qed

subsection \<open>Indices of a loop over a list\<close>

text \<open>
  The indices \<open>j\<close> of \<^verbatim>\<open>for j in range(i, i + len(xs))\<close> whose element satisfies \<open>P\<close>,
  split at the first element: the shape of every per-index report of the scripts.
\<close>

lemma filter_upt_Cons_shift:
  "filter (\<lambda>j. P ((x # xs) ! (j - i))) [i..<Suc (i + length xs)] =
     (if P x then [i] else []) @ filter (\<lambda>j. P (xs ! (j - Suc i))) [Suc i..<Suc (i + length xs)]"
proof -
  have "filter (\<lambda>j. P (xs ! (j - Suc i))) [Suc i..<Suc (i + length xs)] =
        filter (\<lambda>j. P ((x # xs) ! (j - i))) [Suc i..<Suc (i + length xs)]"
  proof (rule filter_cong)
    fix j assume "j \<in> set [Suc i..<Suc (i + length xs)]"
    then have "j - i = Suc (j - Suc i)" by auto
    then show "P (xs ! (j - Suc i)) = P ((x # xs) ! (j - i))" by simp
  qed simp
  moreover have "[i..<Suc (i + length xs)] = i # [Suc i..<Suc (i + length xs)]"
    by (simp add: upt_conv_Cons del: upt_Suc)
  ultimately show ?thesis by simp
qed

text \<open>The prefix of \<open>[0..<n]\<close> a loop gets through before its first failure.\<close>

lemma takeWhile_upt: "takeWhile P [0..<n] = [0..<length (takeWhile P [0..<n])]"
proof -
  have "length (takeWhile P [0..<n]) \<le> n" using length_takeWhile_le [of P "[0..<n]"] by simp
  then have "take (length (takeWhile P [0..<n])) [0..<n] = [0..<length (takeWhile P [0..<n])]"
    by (simp add: take_upt)
  then show ?thesis by (simp add: takeWhile_eq_take [symmetric])
qed

lemma list_all_takeWhile_length: "list_all P xs \<longleftrightarrow> length (takeWhile P xs) = length xs"
  by (induction xs) auto

end
