(* ===== verification/Tensor.thy ===== *)
theory Tensor
  imports Prelude
begin

text \<open>
  Values of a dataset sample as the scripts see them: torch tensors (which have a
  \<^verbatim>\<open>.numpy()\<close> method), numpy arrays, strings and Python ints. A tensor or array is its
  shape and its elements in row-major order; the elements are only moved, never
  computed on, so \<open>int\<close> stands for any element type. The theory holds the numpy
  axis permutation \<^verbatim>\<open>transpose(1, 2, 0)\<close> that \<^verbatim>\<open>clean_dataset.py\<close> and
  \<^verbatim>\<open>merge_datasets.py\<close> apply to channel-first images and the Python
  comparisons the loops make on episode indices.
\<close>

datatype val =
    VTensor "nat list" "int list"
  | VArray "nat list" "int list"
  | VStr string
  | VInt int

subsection \<open>Arrays in row-major order\<close>

fun nd_offset :: "nat list \<Rightarrow> nat list \<Rightarrow> nat" where
  "nd_offset (s # ss) (i # is) = i * prod_list ss + nd_offset ss is"
| "nd_offset _ _ = 0"

definition in_bounds :: "nat list \<Rightarrow> nat list \<Rightarrow> bool" where
  "in_bounds sh idx \<longleftrightarrow> list_all2 (<) idx sh"

definition well_shaped :: "nat list \<Rightarrow> 'a list \<Rightarrow> bool" where
  "well_shaped sh d \<longleftrightarrow> length d = prod_list sh"

text \<open>The element of a well-shaped array at an in-bounds index.\<close>

definition nd_at :: "nat list \<Rightarrow> 'a list \<Rightarrow> nat list \<Rightarrow> 'a" where
  "nd_at sh d idx = d ! nd_offset sh idx"

subsection \<open>numpy's transpose(1, 2, 0) and transpose(2, 0, 1)\<close>

text \<open>
  \<^verbatim>\<open>a.transpose(1, 2, 0)\<close> on an array of shape \<open>(C, H, W)\<close> is the array of shape
  \<open>(H, W, C)\<close> whose element \<open>[i, j, k]\<close> is \<open>a[k, i, j]\<close>. Output position \<open>n\<close> holds
  index \<open>[n div C div W, n div C mod W, n mod C]\<close>.
\<close>

definition chw_to_hwc :: "nat \<Rightarrow> nat \<Rightarrow> nat \<Rightarrow> 'a list \<Rightarrow> 'a list" where
  "chw_to_hwc c h w d =
     map (\<lambda>n. d ! ((n mod c * h + n div c div w) * w + n div c mod w)) [0..<h * w * c]"

subsection \<open>Python comparisons on episode indices\<close>

text \<open>
  An episode index read from a dataset row is a 0-dimensional tensor, an \<open>int\<close> after
  \<^verbatim>\<open>.item()\<close>, or \<^verbatim>\<open>None\<close> when the row has no such key. A comparison involving a
  tensor yields a tensor, whose truth value exists only when it has exactly one
  element; otherwise torch raises \<open>RuntimeError\<close>.
\<close>

fun scalar_of :: "val \<Rightarrow> int option" where
  "scalar_of (VInt x) = Some x"
| "scalar_of (VTensor sh [x]) = Some x"
| "scalar_of (VArray sh [x]) = Some x"
| "scalar_of _ = None"

fun array_like :: "val \<Rightarrow> bool" where
  "array_like (VTensor sh d) = True"
| "array_like (VArray sh d) = True"
| "array_like _ = False"

definition ambiguous :: exc where
  "ambiguous = RuntimeError ''Boolean value of Tensor with more than one value is ambiguous''"

text \<open>numpy's error for the truth value of an array that is not a single element.\<close>

definition array_ambiguous :: exc where
  "array_ambiguous = ValueError ''The truth value of an array with more than one element is ambiguous''"

text \<open>\<^verbatim>\<open>v == n\<close> used as a condition, for an \<open>int\<close> \<open>n\<close>.\<close>

fun py_eq_int :: "val \<Rightarrow> int \<Rightarrow> exc + bool" where
  "py_eq_int (VStr s) n = Inr False"
| "py_eq_int (VArray sh d) n = (case d of [x] \<Rightarrow> Inr (x = n) | _ \<Rightarrow> Inl array_ambiguous)"
| "py_eq_int v n = (case scalar_of v of Some x \<Rightarrow> Inr (x = n) | None \<Rightarrow> Inl ambiguous)"

text \<open>\<^verbatim>\<open>v in xs\<close> for a list of \<open>int\<close>s: the elements are compared in order until one is equal.\<close>

fun py_in :: "val option \<Rightarrow> int list \<Rightarrow> exc + bool" where
  "py_in v [] = Inr False"
| "py_in None (x # xs) = py_in None xs"
| "py_in (Some v) (x # xs) =
     (case py_eq_int v x of
        Inl e \<Rightarrow> Inl e
      | Inr True \<Rightarrow> Inr True
      | Inr False \<Rightarrow> py_in (Some v) xs)"

text \<open>\<^verbatim>\<open>a != b\<close> used as a condition, \<^verbatim>\<open>None\<close> included.\<close>

fun py_ne :: "val option \<Rightarrow> val option \<Rightarrow> exc + bool" where
  "py_ne None None = Inr False"
| "py_ne None (Some b) = Inr True"
| "py_ne (Some a) None = Inr True"
| "py_ne (Some a) (Some b) =
     (case (scalar_of a, scalar_of b) of
        (Some x, Some y) \<Rightarrow> Inr (x \<noteq> y)
      | _ \<Rightarrow> if array_like a \<or> array_like b then Inl ambiguous else Inr (a \<noteq> b))"

subsection \<open>Index arithmetic\<close>

lemma offset3_div_mod:
  fixes i j k w c :: nat
  assumes "j < w" "k < c"
  shows "((i * w + j) * c + k) mod c = k"
    and "((i * w + j) * c + k) div c div w = i"
    and "((i * w + j) * c + k) div c mod w = j"
proof -
  have q: "((i * w + j) * c + k) div c = i * w + j"
    using assms(2) by simp
  show "((i * w + j) * c + k) mod c = k"
    using assms(2) by simp
  show "((i * w + j) * c + k) div c div w = i"
    using assms(1) q by simp
  show "((i * w + j) * c + k) div c mod w = j"
    using assms(1) q by simp
qed

lemma offset3_bound:
  fixes i j k h w c :: nat
  assumes "i < h" "j < w" "k < c"
  shows "(i * w + j) * c + k < h * w * c"
proof -
  have "i * w + j < Suc i * w"
    using assms(2) by simp
  also have "\<dots> \<le> h * w"
    using assms(1) by (intro mult_le_mono1) simp
  finally have hw: "i * w + j < h * w" .
  have "(i * w + j) * c + k < Suc (i * w + j) * c"
    using assms(3) by simp
  also have "\<dots> \<le> h * w * c"
    using hw by (intro mult_le_mono1) simp
  finally show ?thesis .
qed

lemma chw_to_hwc_length [simp]: "length (chw_to_hwc c h w d) = h * w * c"
  by (simp add: chw_to_hwc_def)

text \<open>Position \<open>n\<close> of the transposed array, read at the index it stands for.\<close>

lemma chw_to_hwc_nth:
  assumes "i < h" "j < w" "k < c"
  shows "chw_to_hwc c h w d ! ((i * w + j) * c + k) = d ! ((k * h + i) * w + j)"
  using offset3_bound [OF assms] offset3_div_mod [OF assms(2,3)]
  by (simp add: chw_to_hwc_def)

subsection \<open>Element-wise meaning of the transposition\<close>

text \<open>
  Claim C24. Functional correctness of \<^verbatim>\<open>value.transpose(1, 2, 0)\<close> (clean_dataset.py line 63):
  for every in-bounds index, element \<open>[i, j, k]\<close> of the channel-last result is element
  \<open>[k, i, j]\<close> of the channel-first input.
\<close>

theorem chw_to_hwc_at:
  assumes "i < h" "j < w" "k < c"
  shows "nd_at [h, w, c] (chw_to_hwc c h w d) [i, j, k] = nd_at [c, h, w] d [k, i, j]"
proof -
  have o1: "nd_offset [h, w, c] [i, j, k] = (i * w + j) * c + k"
    by (simp add: algebra_simps)
  have o2: "nd_offset [c, h, w] [k, i, j] = (k * h + i) * w + j"
    by (simp add: algebra_simps)
  show ?thesis
    by (simp only: nd_at_def o1 o2 chw_to_hwc_nth [OF assms])
qed

theorem chw_to_hwc_at_witness:
  "0 < (1::nat) \<and> 1 < (2::nat) \<and> 2 < (3::nat) \<and>
   nd_at [1, 2, 3] (chw_to_hwc 3 1 2 [10, 11, 12, 13, 14, 15 :: int]) [0, 1, 2] = 15"
  using chw_to_hwc_at [of 0 1 1 2 2 3 "[10, 11, 12, 13, 14, 15 :: int]"]
  by (simp add: nd_at_def)

subsection \<open>Comparisons on scalar indices\<close>

lemma py_eq_int_scalar [simp]: "scalar_of v = Some x \<Longrightarrow> py_eq_int v n = Inr (x = n)"
  by (cases v rule: scalar_of.cases) auto

lemma py_in_scalar [simp]: "scalar_of v = Some x \<Longrightarrow> py_in (Some v) xs = Inr (x \<in> set xs)"
  by (induction xs) (auto split: bool.split)

lemma py_in_None [simp]: "py_in None xs = Inr False"
  by (induction xs) auto

lemma py_ne_scalar [simp]:
  "scalar_of a = Some x \<Longrightarrow> scalar_of b = Some y \<Longrightarrow> py_ne (Some a) (Some b) = Inr (x \<noteq> y)"
  by simp

end
