(* ===== verification/Frame.thy ===== *)
theory Frame
  imports Tensor
begin

text \<open>
  Building the frame handed to \<^verbatim>\<open>add_frame\<close> from a dataset sample, as
  \<^verbatim>\<open>clean_dataset.py\<close> (lines 56--64) and \<^verbatim>\<open>merge_datasets.py\<close> (lines 44--52) both do:
  the frame starts with the sample's \<^verbatim>\<open>task\<close>, then every field that is not a bookkeeping
  key is copied in the sample's order, a torch tensor converted to a numpy array and a
  channel-first image (a key containing \<^verbatim>\<open>image\<close>, three dimensions, three channels)
  transposed to channel-last. Samples and frames are Python dicts, modelled as
  association lists in insertion order; \<open>AList.update\<close> is \<^verbatim>\<open>frame[key] = value\<close>.
\<close>

type_synonym sample = "(string \<times> val) list"
type_synonym frame = "(string \<times> val) list"

definition bookkeeping_keys :: "string list" where
  "bookkeeping_keys =
     [''episode_index'', ''frame_index'', ''index'', ''task_index'', ''task'',
      ''dataset_index'', ''timestamp'']"

text \<open>
  Lines 59--63: a value with a \<^verbatim>\<open>numpy\<close> method (a torch tensor) becomes a numpy array;
  an image of shape \<open>(3, H, W)\<close> is transposed to \<open>(H, W, 3)\<close>. Other values pass
  unchanged.
\<close>

definition frame_value :: "string \<Rightarrow> val \<Rightarrow> val" where
  "frame_value key v =
     (case v of
        VTensor sh d \<Rightarrow>
          (case sh of
             [c, h, w] \<Rightarrow>
               if str_contains ''image'' key \<and> c = 3
               then VArray [h, w, c] (chw_to_hwc c h w d) else VArray sh d
           | _ \<Rightarrow> VArray sh d)
      | _ \<Rightarrow> v)"

text \<open>One iteration of the loop over \<^verbatim>\<open>sample.items()\<close> (lines 57--64).\<close>

definition add_item :: "string \<times> val \<Rightarrow> frame \<Rightarrow> frame" where
  "add_item kv fr =
     (if fst kv \<notin> set bookkeeping_keys
      then AList.update (fst kv) (frame_value (fst kv) (snd kv)) fr else fr)"

text \<open>Line 56 reads \<^verbatim>\<open>sample['task']\<close>, which raises \<open>KeyError\<close> when the key is missing.\<close>

definition prepare_frame :: "sample \<Rightarrow> exc + frame" where
  "prepare_frame s =
     (case map_of s ''task'' of
        None \<Rightarrow> Inl (KeyError ''task'')
      | Some t \<Rightarrow> Inr (fold add_item s [(''task'', t)]))"

text \<open>
  A well-formed frame for \<^verbatim>\<open>add_frame\<close>: a dict (distinct keys) whose first entry is the
  task, followed by fields that are not bookkeeping keys and hold no torch tensor.
\<close>

fun is_tensor :: "val \<Rightarrow> bool" where
  "is_tensor (VTensor sh d) = True"
| "is_tensor _ = False"

definition frame_wf :: "val \<Rightarrow> frame \<Rightarrow> bool" where
  "frame_wf t fr \<longleftrightarrow>
     distinct (map fst fr) \<and> fr \<noteq> [] \<and> hd fr = (''task'', t) \<and>
     list_all (\<lambda>(k, v). k \<notin> set bookkeeping_keys \<and> \<not> is_tensor v) (tl fr)"

subsection \<open>The frame of a sample\<close>

lemma update_new_key: "k \<notin> set (map fst al) \<Longrightarrow> AList.update k v al = al @ [(k, v)]"
  by (induction al) auto

lemma fold_add_item:
  assumes "distinct (map fst s)"
    and "\<forall>k \<in> set (map fst s). k \<notin> set bookkeeping_keys \<longrightarrow> k \<notin> set (map fst acc)"
  shows "fold add_item s acc =
           acc @ map (\<lambda>(k, v). (k, frame_value k v))
                   (filter (\<lambda>(k, v). k \<notin> set bookkeeping_keys) s)"
  using assms
proof (induction s arbitrary: acc)
  case Nil
  then show ?case by simp
next
  case (Cons kv s)
  obtain k v where kv: "kv = (k, v)" by fastforce
  show ?case
  proof (cases "k \<in> set bookkeeping_keys")
    case True
    with Cons kv show ?thesis by (simp add: add_item_def)
  next
    case False
    with Cons.prems kv have step: "add_item kv acc = acc @ [(k, frame_value k v)]"
      by (simp add: add_item_def update_new_key)
    from Cons.prems kv have
      "\<forall>k' \<in> set (map fst s). k' \<notin> set bookkeeping_keys \<longrightarrow>
         k' \<notin> set (map fst (acc @ [(k, frame_value k v)]))"
      by auto
    with Cons.prems Cons.IH kv step False show ?thesis by simp
  qed
qed

lemma prepare_frame_drop_key:
  assumes "k \<in> set bookkeeping_keys" and "k \<noteq> ''task''"
  shows "prepare_frame (s @ [(k, v)]) = prepare_frame s"
proof -
  have "map_of (s @ [(k, v)]) ''task'' = map_of s ''task''"
    using assms(2) by (simp add: map_of_append map_add_def split: option.split)
  moreover have "add_item (k, v) fr = fr" for fr
    using assms(1) by (simp add: add_item_def)
  ultimately show ?thesis
    by (simp add: prepare_frame_def split: option.split)
qed

lemma prepare_frame_eq:
  assumes "distinct (map fst s)" and "map_of s ''task'' = Some t"
  shows "prepare_frame s =
           Inr ((''task'', t) # map (\<lambda>(k, v). (k, frame_value k v))
                                  (filter (\<lambda>(k, v). k \<notin> set bookkeeping_keys) s))"
proof -
  have "\<forall>k \<in> set (map fst s). k \<notin> set bookkeeping_keys \<longrightarrow> k \<notin> set (map fst [(''task'', t)])"
    by (simp add: bookkeeping_keys_def)
  with assms show ?thesis
    by (simp add: prepare_frame_def fold_add_item)
qed

lemma map_of_converted:
  "P k \<Longrightarrow> map_of (map (\<lambda>(k, v). (k, f k v)) (filter (\<lambda>(k, v). P k) s)) k = map_option (f k) (map_of s k)"
  by (induction s) auto

text \<open>
  Claim C23. For a sample with distinct keys and a \<^verbatim>\<open>task\<close>, the frame is the
  task followed by every non-bookkeeping field in the sample's order, each value
  converted by \<open>frame_value\<close>; no bookkeeping field survives and none is duplicated.
\<close>

theorem prepare_frame_spec:
  assumes "distinct (map fst s)" and "map_of s ''task'' = Some t"
  shows "prepare_frame s =
           Inr ((''task'', t) # map (\<lambda>(k, v). (k, frame_value k v))
                                  (filter (\<lambda>(k, v). k \<notin> set bookkeeping_keys) s))"
  using assms by (rule prepare_frame_eq)

theorem prepare_frame_spec_witness:
  "distinct (map fst [(''episode_index'', VTensor [] [0]), (''task'', VStr ''pick''),
                      (''observation.images.top'', VTensor [3, 1, 1] [7, 8, 9])]) \<and>
   map_of [(''episode_index'', VTensor [] [0]), (''task'', VStr ''pick''),
           (''observation.images.top'', VTensor [3, 1, 1] [7, 8, 9])] ''task'' = Some (VStr ''pick'') \<and>
   prepare_frame [(''episode_index'', VTensor [] [0]), (''task'', VStr ''pick''),
                  (''observation.images.top'', VTensor [3, 1, 1] [7, 8, 9])] =
     Inr [(''task'', VStr ''pick''), (''observation.images.top'', VArray [1, 1, 3] [7, 8, 9])]"
  using prepare_frame_spec [of "[(''episode_index'', VTensor [] [0]), (''task'', VStr ''pick''),
                  (''observation.images.top'', VTensor [3, 1, 1] [7, 8, 9])]" "VStr ''pick''"]
  by (simp add: bookkeeping_keys_def frame_value_def chw_to_hwc_def upt_rec)

text \<open>
  Claim C25. The layout of every tensor field of a frame: for a sample with
  distinct keys and a task, a field \<open>k\<close> that is not a bookkeeping key and holds a
  tensor of shape \<open>(C, H, W)\<close> is stored as a numpy array of shape \<open>(H, W, 3)\<close>,
  transposed, when \<open>k\<close> contains \<^verbatim>\<open>image\<close> and \<open>C = 3\<close>, and keeps shape \<open>(C, H, W)\<close>
  and its elements otherwise (the specification's last testable property).
\<close>

theorem prepare_frame_layout:
  assumes "distinct (map fst s)" and "prepare_frame s = Inr fr"
    and "map_of s k = Some (VTensor [c, h, w] d)" and "k \<notin> set bookkeeping_keys"
  shows "map_of fr k = Some (if str_contains ''image'' k \<and> c = 3
                              then VArray [h, w, 3] (chw_to_hwc 3 h w d) else VArray [c, h, w] d)"
proof -
  obtain t where t: "map_of s ''task'' = Some t"
    using assms(2) by (auto simp: prepare_frame_def split: option.splits)
  have nt: "k \<noteq> ''task''" using assms(4) by (auto simp: bookkeeping_keys_def)
  have "fr = (''task'', t) # map (\<lambda>(k, v). (k, frame_value k v))
                                  (filter (\<lambda>(k, v). k \<notin> set bookkeeping_keys) s)"
    using prepare_frame_eq [OF assms(1) t] assms(2) by simp
  then have "map_of fr k = map_option (frame_value k) (map_of s k)"
    using nt assms(4) map_of_converted [of "\<lambda>k. k \<notin> set bookkeeping_keys" k frame_value s] by simp
  with assms(3) show ?thesis by (simp add: frame_value_def)
qed

theorem prepare_frame_layout_witness:
  "distinct (map fst [(''task'', VStr ''pick''), (''observation.images.top'', VTensor [3, 1, 1] [7, 8, 9]),
                      (''observation.state'', VTensor [3, 1, 1] [1, 2, 3])]) \<and>
   prepare_frame [(''task'', VStr ''pick''), (''observation.images.top'', VTensor [3, 1, 1] [7, 8, 9]),
                  (''observation.state'', VTensor [3, 1, 1] [1, 2, 3])] =
     Inr [(''task'', VStr ''pick''), (''observation.images.top'', VArray [1, 1, 3] [7, 8, 9]),
          (''observation.state'', VArray [3, 1, 1] [1, 2, 3])] \<and>
   map_of [(''task'', VStr ''pick''), (''observation.images.top'', VTensor [3, 1, 1] [7, 8, 9]),
           (''observation.state'', VTensor [3, 1, 1] [1, 2, 3])] ''observation.state'' =
     Some (VTensor [3, 1, 1] [1, 2, 3]) \<and>
   ''observation.state'' \<notin> set bookkeeping_keys \<and>
   map_of [(''task'', VStr ''pick''), (''observation.images.top'', VArray [1, 1, 3] [7, 8, 9]),
           (''observation.state'', VArray [3, 1, 1] [1, 2, 3])] ''observation.state'' =
     Some (VArray [3, 1, 1] [1, 2, 3])"
proof -
  let ?s = "[(''task'', VStr ''pick''), (''observation.images.top'', VTensor [3, 1, 1] [7, 8, 9]),
             (''observation.state'', VTensor [3, 1, 1] [1, 2, 3 :: int])]"
  have pf: "prepare_frame ?s = Inr [(''task'', VStr ''pick''), (''observation.images.top'', VArray [1, 1, 3] [7, 8, 9]),
          (''observation.state'', VArray [3, 1, 1] [1, 2, 3])]"
    by (simp add: prepare_frame_def add_item_def bookkeeping_keys_def frame_value_def chw_to_hwc_def
        upt_rec)
  have nb: "''observation.state'' \<notin> set bookkeeping_keys" by (simp add: bookkeeping_keys_def)
  have ni: "\<not> str_contains ''image'' ''observation.state''" by simp
  show ?thesis
    using prepare_frame_layout [OF _ pf _ nb, of 3 1 1 "[1, 2, 3]"] pf nb ni by simp
qed

subsection \<open>Every frame is a well-formed dict\<close>

lemma frame_value_not_tensor: "\<not> is_tensor (frame_value k v)"
  by (cases v) (auto simp: frame_value_def split: list.split)

lemma update_set_subset: "set (AList.update k v xs) \<subseteq> insert (k, v) (set xs)"
  by (induction xs) auto

lemma add_item_wf: "frame_wf t fr \<Longrightarrow> frame_wf t (add_item kv fr)"
proof -
  assume wf: "frame_wf t fr"
  then obtain rest where fr: "fr = (''task'', t) # rest"
    by (cases fr) (auto simp: frame_wf_def)
  show ?thesis
  proof (cases "fst kv \<in> set bookkeeping_keys")
    case True
    with wf show ?thesis by (simp add: add_item_def)
  next
    case False
    then have nt: "fst kv \<noteq> ''task''" by (auto simp: bookkeeping_keys_def)
    let ?u = "AList.update (fst kv) (frame_value (fst kv) (snd kv)) rest"
    have "add_item kv fr = (''task'', t) # ?u"
      using False nt fr by (simp add: add_item_def)
    moreover have sub: "set ?u \<subseteq> insert (fst kv, frame_value (fst kv) (snd kv)) (set rest)"
      by (rule update_set_subset)
    moreover have "''task'' \<notin> fst ` set ?u"
    proof
      assume "''task'' \<in> fst ` set ?u"
      then obtain b where "(''task'', b) \<in> set ?u" by force
      with sub nt have "(''task'', b) \<in> set rest" by auto
      with wf fr show False by (force simp: frame_wf_def)
    qed
    ultimately show ?thesis
      using wf fr False frame_value_not_tensor [of "fst kv" "snd kv"]
      by (auto simp: frame_wf_def list_all_iff distinct_update)
  qed
qed

text \<open>
  Claim C27. Whatever the sample, a frame built by \<open>prepare_frame\<close> is
  a well-formed dict: distinct keys, the sample's task first, no bookkeeping key after it,
  and no torch tensor among the copied fields.
\<close>

theorem prepare_frame_wf:
  "prepare_frame s = Inr fr \<Longrightarrow> \<exists>t. map_of s ''task'' = Some t \<and> frame_wf t fr"
proof -
  assume pf: "prepare_frame s = Inr fr"
  then obtain t where t: "map_of s ''task'' = Some t" and fr: "fr = fold add_item s [(''task'', t)]"
    by (auto simp: prepare_frame_def split: option.splits)
  have "frame_wf t (fold add_item s acc)" if "frame_wf t acc" for acc
    using that by (induction s arbitrary: acc) (simp_all add: add_item_wf)
  moreover have "frame_wf t [(''task'', t)]" by (simp add: frame_wf_def)
  ultimately show ?thesis using t fr by blast
qed

theorem prepare_frame_wf_witness:
  "prepare_frame [(''task'', VStr ''pick''), (''observation.images.top'', VTensor [3, 1, 1] [7, 8, 9]),
                  (''index'', VTensor [] [4]), (''observation.state'', VTensor [1] [5])] =
     Inr [(''task'', VStr ''pick''), (''observation.images.top'', VArray [1, 1, 3] [7, 8, 9]),
          (''observation.state'', VArray [1] [5])] \<and>
   frame_wf (VStr ''pick'') [(''task'', VStr ''pick''), (''observation.images.top'', VArray [1, 1, 3] [7, 8, 9]),
          (''observation.state'', VArray [1] [5])]"
proof -
  have pf: "prepare_frame [(''task'', VStr ''pick''), (''observation.images.top'', VTensor [3, 1, 1] [7, 8, 9]),
                  (''index'', VTensor [] [4]), (''observation.state'', VTensor [1] [5])] =
     Inr [(''task'', VStr ''pick''), (''observation.images.top'', VArray [1, 1, 3] [7, 8, 9]),
          (''observation.state'', VArray [1] [5])]"
    by (simp add: prepare_frame_def add_item_def bookkeeping_keys_def frame_value_def chw_to_hwc_def upt_rec)
  show ?thesis using prepare_frame_wf [OF pf] pf by auto
qed

end
