(* ===== verification/Sink.thy ===== *)
theory Sink
  imports Frame
begin

text \<open>
  The output dataset of the scripts, \<^verbatim>\<open>LeRobotDataset.create(...)\<close> of the external
  lerobot library, seen through the calls the scripts make on it: \<^verbatim>\<open>add_frame\<close>
  buffers a frame into the open episode, \<^verbatim>\<open>save_episode\<close> seals the buffer as an
  episode, \<^verbatim>\<open>push_to_hub\<close> publishes. The library is not part of the repository; this
  theory models its contract from the specification (section 6): the feature schema
  copied from the source decides which frames \<^verbatim>\<open>add_frame\<close> accepts (it raises
  \<open>ValueError\<close> otherwise), and sealing an empty buffer raises \<open>ValueError\<close>, as the
  library's episode-buffer validation does. The schema is abstract: the set of frames
  it accepts.
\<close>

type_synonym features = "frame \<Rightarrow> bool"

record sink =
  sink_repo :: string
  sink_fps :: nat
  frame_ok :: features
  buffer :: "frame list"
  episodes :: "frame list list"
  pushed :: bool

definition create :: "string \<Rightarrow> nat \<Rightarrow> features \<Rightarrow> sink" where
  "create repo fps feats =
     \<lparr>sink_repo = repo, sink_fps = fps, frame_ok = feats, buffer = [], episodes = [],
      pushed = False\<rparr>"

definition add_frame :: "frame \<Rightarrow> sink \<Rightarrow> exc + sink" where
  "add_frame fr sk =
     (if frame_ok sk fr then Inr (sk\<lparr>buffer := buffer sk @ [fr]\<rparr>)
      else Inl (ValueError ''frame does not match the dataset features''))"

definition save_episode :: "sink \<Rightarrow> exc + sink" where
  "save_episode sk =
     (if buffer sk = [] then Inl (ValueError ''no frames in the episode buffer'')
      else Inr (sk\<lparr>episodes := episodes sk @ [buffer sk], buffer := []\<rparr>))"

definition push_to_hub :: "sink \<Rightarrow> sink" where
  "push_to_hub sk = sk\<lparr>pushed := True\<rparr>"

subsection \<open>The calls on the sink\<close>

lemma add_frame_Inr [simp]:
  "frame_ok sk fr \<Longrightarrow> add_frame fr sk = Inr (sk\<lparr>buffer := buffer sk @ [fr]\<rparr>)"
  by (simp add: add_frame_def)

lemma add_frame_Inl [simp]:
  "\<not> frame_ok sk fr \<Longrightarrow> add_frame fr sk = Inl (ValueError ''frame does not match the dataset features'')"
  by (simp add: add_frame_def)

lemma save_episode_Inr [simp]:
  "buffer sk \<noteq> [] \<Longrightarrow> save_episode sk = Inr (sk\<lparr>episodes := episodes sk @ [buffer sk], buffer := []\<rparr>)"
  by (simp add: save_episode_def)

lemma save_episode_Inl [simp]:
  "buffer sk = [] \<Longrightarrow> save_episode sk = Inl (ValueError ''no frames in the episode buffer'')"
  by (simp add: save_episode_def)

lemma create_fields [simp]:
  "buffer (create repo fps feats) = []" "episodes (create repo fps feats) = []"
  "frame_ok (create repo fps feats) = feats" "pushed (create repo fps feats) = False"
  by (simp_all add: create_def)

lemma push_to_hub_fields [simp]:
  "buffer (push_to_hub sk) = buffer sk" "episodes (push_to_hub sk) = episodes sk"
  "frame_ok (push_to_hub sk) = frame_ok sk" "pushed (push_to_hub sk) = True"
  by (simp_all add: push_to_hub_def)

end
