(* ===== verification/CleanDataset.thy ===== *)
theory CleanDataset
  imports Sink
begin

text \<open>
  \<^verbatim>\<open>src/own_scripts/clean_dataset.py\<close>, \<^verbatim>\<open>create_clean_dataset\<close>: copy a source dataset
  into a new one sample by sample, skipping excluded episodes and samples that fail to
  load, opening a new output episode whenever \<^verbatim>\<open>episode_index\<close> changes. The source is
  the list of what its two accessors return at each index: the parquet row
  \<^verbatim>\<open>hf_dataset[i]\<close> and the decoded sample \<^verbatim>\<open>source_dataset[i]\<close>, each a value or the
  exception it raises. The loop's variables (\<^verbatim>\<open>current_episode\<close>, the two counters),
  the output dataset and the printed messages form the state; the body of the
  \<^verbatim>\<open>try\<close> is an outcome (Prelude) and the \<^verbatim>\<open>except\<close> clause logs and continues.
\<close>

type_synonym row = "(string \<times> val) list"
type_synonym entry = "(exc + row) \<times> (exc + sample)"

record source =
  src_repo :: string
  src_fps :: nat
  src_features :: features
  src_num_episodes :: nat
  has_hf_dataset :: bool
  entries :: "entry list"

text \<open>
  What \<^verbatim>\<open>create_clean_dataset\<close> prints, one constructor per \<^verbatim>\<open>print\<close> (lines 8, 14, 15,
  51, 70, 73, 79, 82--84, 86, 88), with the values it formats.
\<close>

datatype msg =
    LoadingSource string
  | CreatingClean string
  | ExcludingEpisodes "int list"
  | SavedEpisode "val option"
  | CopiedSamples nat
  | SkippingSample nat exc
  | SavedFinalEpisode "val option"
  | CleaningComplete
  | SamplesCopiedTotal nat
  | EpisodesCopiedTotal nat
  | UploadingClean
  | CleanUploaded string

record clean_state =
  current_episode :: "val option"
  samples_copied :: nat
  episodes_copied :: nat
  dst :: sink
  log :: "msg list"

subsection \<open>The loop body\<close>

text \<open>
  Lines 32--38. With \<^verbatim>\<open>hf_dataset\<close>, \<^verbatim>\<open>row.get('episode_index')\<close> is the value or
  \<^verbatim>\<open>None\<close>. The fallback first loads the sample and then evaluates the default
  \<^verbatim>\<open>torch.tensor(-1)\<close>; \<^verbatim>\<open>torch\<close> is never imported, so it raises \<open>NameError\<close>.
\<close>

definition read_episode_index :: "bool \<Rightarrow> entry \<Rightarrow> exc + val option" where
  "read_episode_index hf ent =
     (if hf then (case fst ent of Inl e \<Rightarrow> Inl e | Inr r \<Rightarrow> Inr (map_of r ''episode_index''))
      else (case snd ent of Inl e \<Rightarrow> Inl e | Inr s \<Rightarrow> Inl (NameError ''torch'')))"

text \<open>Lines 48--53: seal the open episode when the index changes.\<close>

definition start_episode :: "val option \<Rightarrow> clean_state \<Rightarrow> clean_state outcome" where
  "start_episode ep st =
     (case py_ne (current_episode st) ep of
        Inl e \<Rightarrow> raise_at st e
      | Inr False \<Rightarrow> ok st
      | Inr True \<Rightarrow>
          (if current_episode st \<noteq> None
           then olift (save_episode (dst st)) st (\<lambda>d.
                  ok (st\<lparr>dst := d,
                         log := log st @ [SavedEpisode (current_episode st)],
                         episodes_copied := Suc (episodes_copied st),
                         current_episode := ep\<rparr>))
           else ok (st\<lparr>current_episode := ep\<rparr>)))"

text \<open>Lines 56--70: build the frame, append it, count it, report every hundredth.\<close>

definition copy_sample :: "sample \<Rightarrow> clean_state \<Rightarrow> clean_state outcome" where
  "copy_sample s st =
     olift (prepare_frame s) st (\<lambda>fr.
       olift (add_frame fr (dst st)) st (\<lambda>d.
         let n = Suc (samples_copied st)
         in ok (st\<lparr>dst := d, samples_copied := n,
                   log := log st @ (if n mod 100 = 0 then [CopiedSamples n] else [])\<rparr>)))"

text \<open>Lines 31--70, the body of the \<^verbatim>\<open>try\<close>; \<^verbatim>\<open>continue\<close> on an excluded episode.\<close>

definition clean_body :: "int list \<Rightarrow> bool \<Rightarrow> entry \<Rightarrow> clean_state \<Rightarrow> clean_state outcome" where
  "clean_body excl hf ent st =
     olift (read_episode_index hf ent) st (\<lambda>ep.
       olift (py_in ep excl) st (\<lambda>excluded.
         if excluded then ok st
         else olift (snd ent) st (\<lambda>s. obind (start_episode ep st) (copy_sample s))))"

text \<open>Lines 30--74: the \<^verbatim>\<open>except\<close> clause logs the index and the exception and continues.\<close>

definition clean_step :: "int list \<Rightarrow> bool \<Rightarrow> nat \<Rightarrow> entry \<Rightarrow> clean_state \<Rightarrow> clean_state" where
  "clean_step excl hf i ent st =
     (case clean_body excl hf ent st of
        (st', None) \<Rightarrow> st'
      | (st', Some e) \<Rightarrow> st'\<lparr>log := log st' @ [SkippingSample i e]\<rparr>)"

text \<open>Line 29: \<^verbatim>\<open>for i in range(len(source_dataset))\<close>.\<close>

fun clean_loop :: "int list \<Rightarrow> bool \<Rightarrow> nat \<Rightarrow> entry list \<Rightarrow> clean_state \<Rightarrow> clean_state" where
  "clean_loop excl hf i [] st = st"
| "clean_loop excl hf i (ent # ents) st = clean_loop excl hf (Suc i) ents (clean_step excl hf i ent st)"

text \<open>Lines 76--80, outside the \<^verbatim>\<open>try\<close>: an exception here ends the script.\<close>

definition save_final :: "clean_state \<Rightarrow> exc + clean_state" where
  "save_final st =
     (if current_episode st \<noteq> None
      then (case save_episode (dst st) of
              Inl e \<Rightarrow> Inl e
            | Inr d \<Rightarrow> Inr (st\<lparr>dst := d,
                               log := log st @ [SavedFinalEpisode (current_episode st)],
                               episodes_copied := Suc (episodes_copied st)\<rparr>))
      else Inr st)"

text \<open>
  Lines 8--27: the announcements, the output dataset created with the source's fps and
  features (lines 18--23), the loop variables (25--27). Loading the source (9--12) is
  the given \<open>src\<close>.
\<close>

definition init_clean_state :: "source \<Rightarrow> string \<Rightarrow> int list \<Rightarrow> clean_state" where
  "init_clean_state src target excl =
     \<lparr>current_episode = None, samples_copied = 0, episodes_copied = 0,
      dst = create target (src_fps src) (src_features src),
      log = [LoadingSource (src_repo src), CreatingClean target, ExcludingEpisodes excl]\<rparr>"

text \<open>
  Lines 5--88, the whole function: the loop, the final seal (76--80), the totals
  (82--84), the upload (86--88). An exception of the final seal ends the function.
\<close>

definition create_clean_dataset :: "source \<Rightarrow> string \<Rightarrow> int list \<Rightarrow> exc + clean_state" where
  "create_clean_dataset src target excl =
     (case save_final (clean_loop excl (has_hf_dataset src) 0 (entries src)
                         (init_clean_state src target excl)) of
        Inl e \<Rightarrow> Inl e
      | Inr st \<Rightarrow>
          Inr (st\<lparr>dst := push_to_hub (dst st),
                  log := log st @ [CleaningComplete, SamplesCopiedTotal (samples_copied st),
                                   EpisodesCopiedTotal (episodes_copied st), UploadingClean,
                                   CleanUploaded target]\<rparr>))"

text \<open>
  Lines 90--95, the \<^verbatim>\<open>__main__\<close> block: clean \<^verbatim>\<open>Flimdejong/touch_black_chip\<close> (the
  loaded source \<open>src\<close>) into \<^verbatim>\<open>Flimdejong/touch_black_chip_clean\<close>, excluding episode 49.
\<close>

definition clean_main :: "source \<Rightarrow> exc + clean_state" where
  "clean_main src = create_clean_dataset src ''Flimdejong/touch_black_chip_clean'' [49]"

subsection \<open>What the loop should copy\<close>

text \<open>
  The abstract view of one source index: its integer episode index and decoded sample
  when the index can be read, is not excluded and the sample loads; the frame it should
  contribute; and the two conditions under which the loop runs as the specification
  describes: every readable row carries a scalar \<^verbatim>\<open>episode_index\<close>, and every frame
  that reaches \<^verbatim>\<open>add_frame\<close> is built and accepted by the output's features.
\<close>

definition keyed_sample :: "int list \<Rightarrow> bool \<Rightarrow> entry \<Rightarrow> (int \<times> sample) option" where
  "keyed_sample excl hf ent =
     (case read_episode_index hf ent of
        Inr (Some v) \<Rightarrow>
          (case scalar_of v of
             Some k \<Rightarrow> if k \<in> set excl then None
                       else (case snd ent of Inr s \<Rightarrow> Some (k, s) | Inl e \<Rightarrow> None)
           | None \<Rightarrow> None)
      | _ \<Rightarrow> None)"

definition keep :: "int list \<Rightarrow> bool \<Rightarrow> entry \<Rightarrow> (int \<times> frame) option" where
  "keep excl hf ent =
     (case keyed_sample excl hf ent of
        Some (k, s) \<Rightarrow> (case prepare_frame s of Inr fr \<Rightarrow> Some (k, fr) | Inl e \<Rightarrow> None)
      | None \<Rightarrow> None)"

definition transcribed :: "int list \<Rightarrow> bool \<Rightarrow> entry list \<Rightarrow> (int \<times> frame) list" where
  "transcribed excl hf ents = List.map_filter (keep excl hf) ents"

definition scalar_index :: "bool \<Rightarrow> entry \<Rightarrow> bool" where
  "scalar_index hf ent =
     (case read_episode_index hf ent of
        Inr (Some v) \<Rightarrow> scalar_of v \<noteq> None
      | Inr None \<Rightarrow> False
      | Inl e \<Rightarrow> True)"

definition accepted :: "features \<Rightarrow> int list \<Rightarrow> bool \<Rightarrow> entry \<Rightarrow> bool" where
  "accepted feats excl hf ent =
     (case keyed_sample excl hf ent of
        Some (k, s) \<Rightarrow> (case prepare_frame s of Inr fr \<Rightarrow> feats fr | Inl e \<Rightarrow> False)
      | None \<Rightarrow> True)"

text \<open>
  The loop invariant: the samples copied so far are \<open>xs\<close>; the sealed episodes and the
  open buffer are its runs; \<^verbatim>\<open>current_episode\<close> is the key of the last run.
\<close>

definition clean_inv :: "features \<Rightarrow> (int \<times> frame) list \<Rightarrow> clean_state \<Rightarrow> bool" where
  "clean_inv feats xs st \<longleftrightarrow>
     frame_ok (dst st) = feats \<and> samples_copied st = length xs \<and>
     episodes_copied st = length (episodes (dst st)) \<and>
     (if xs = [] then current_episode st = None \<and> buffer (dst st) = [] \<and> episodes (dst st) = []
      else (case current_episode st of
              None \<Rightarrow> False
            | Some v \<Rightarrow> scalar_of v = Some (fst (last (runs xs)))) \<and>
           episodes (dst st) @ [buffer (dst st)] = map snd (runs xs))"

text \<open>The indices the \<^verbatim>\<open>except\<close> clause reports as skipped, in order.\<close>

definition skipped_indices :: "msg list \<Rightarrow> nat list" where
  "skipped_indices l = List.map_filter (\<lambda>m. case m of SkippingSample i e \<Rightarrow> Some i | _ \<Rightarrow> None) l"

text \<open>
  The counters the script prints at the end against the output: every frame counted
  by \<^verbatim>\<open>samples_copied\<close> is in a sealed episode or in the open buffer, and
  \<^verbatim>\<open>episodes_copied\<close> counts the sealed episodes.
\<close>

definition counters_honest :: "clean_state \<Rightarrow> bool" where
  "counters_honest st \<longleftrightarrow>
     samples_copied st = length (concat (episodes (dst st))) + length (buffer (dst st)) \<and>
     episodes_copied st = length (episodes (dst st))"

text \<open>
  The states the copy loop can reach from \<open>st0\<close>: any number of iterations, each on any
  source entry at any index (an over-approximation of \<^verbatim>\<open>for i in range(...)\<close>).
\<close>

inductive clean_reachable :: "int list \<Rightarrow> bool \<Rightarrow> clean_state \<Rightarrow> clean_state \<Rightarrow> bool" where
  reach_start: "clean_reachable excl hf st0 st0"
| reach_step: "clean_reachable excl hf st0 st \<Longrightarrow> clean_reachable excl hf st0 (clean_step excl hf i ent st)"

subsection \<open>Example inputs\<close>

text \<open>
  Samples of the shape lerobot returns (0-dimensional index tensors, a task string, a
  state vector), the rows of their parquet table, an index whose video frame fails to
  decode, and a source holding a list of them.
\<close>

definition ex_sample :: "int \<Rightarrow> sample" where
  "ex_sample e =
     [(''episode_index'', VTensor [] [e]), (''frame_index'', VTensor [] [0]),
      (''task'', VStr ''pick''), (''observation.state'', VTensor [2] [1, e])]"

definition ex_entry :: "int \<Rightarrow> entry" where
  "ex_entry e = (Inr [(''episode_index'', VTensor [] [e])], Inr (ex_sample e))"

definition ex_broken :: "int \<Rightarrow> entry" where
  "ex_broken e = (Inr [(''episode_index'', VTensor [] [e])], Inl (LibraryError ''corrupted video frame''))"

definition ex_source :: "bool \<Rightarrow> entry list \<Rightarrow> source" where
  "ex_source hf es =
     \<lparr>src_repo = ''Flimdejong/touch_black_chip'', src_fps = 30, src_features = (\<lambda>fr. True),
      src_num_episodes = length (remdups (map fst es)), has_hf_dataset = hf, entries = es\<rparr>"

definition ex_frame :: "int \<Rightarrow> frame" where
  "ex_frame e = [(''task'', VStr ''pick''), (''observation.state'', VArray [2] [1, e])]"

subsection \<open>One iteration\<close>

lemma copy_sample_ok:
  assumes "prepare_frame s = Inr fr" and "frame_ok (dst st) fr"
  shows "copy_sample s st =
           (st\<lparr>dst := (dst st)\<lparr>buffer := buffer (dst st) @ [fr]\<rparr>,
               samples_copied := Suc (samples_copied st),
               log := log st @ (if Suc (samples_copied st) mod 100 = 0
                                then [CopiedSamples (Suc (samples_copied st))] else [])\<rparr>, None)"
  using assms by (simp add: copy_sample_def Let_def)

lemma start_episode_first:
  "current_episode st = None \<Longrightarrow> start_episode (Some v) st = (st\<lparr>current_episode := Some v\<rparr>, None)"
  by (simp add: start_episode_def)

lemma start_episode_same:
  "current_episode st = Some u \<Longrightarrow> scalar_of u = Some k \<Longrightarrow> scalar_of v = Some k \<Longrightarrow>
   start_episode (Some v) st = (st, None)"
  by (simp add: start_episode_def)

lemma start_episode_switch:
  assumes "current_episode st = Some u" "scalar_of u = Some k'" "scalar_of v = Some k" "k' \<noteq> k"
    and "buffer (dst st) \<noteq> []"
  shows "start_episode (Some v) st =
           (st\<lparr>dst := (dst st)\<lparr>episodes := episodes (dst st) @ [buffer (dst st)], buffer := []\<rparr>,
               log := log st @ [SavedEpisode (Some u)],
               episodes_copied := Suc (episodes_copied st),
               current_episode := Some v\<rparr>, None)"
  using assms by (simp add: start_episode_def)

lemma keep_SomeE:
  assumes "keep excl hf ent = Some (k, fr)"
  obtains v s where "read_episode_index hf ent = Inr (Some v)" "scalar_of v = Some k"
    "k \<notin> set excl" "snd ent = Inr s" "prepare_frame s = Inr fr"
  using assms
  by (auto simp: keep_def keyed_sample_def split: sum.splits option.splits if_splits)

lemma keep_accepted:
  "keep excl hf ent = Some (k, fr) \<Longrightarrow> accepted feats excl hf ent \<Longrightarrow> feats fr"
  by (auto simp: keep_def accepted_def split: option.splits sum.splits)

lemma clean_state_log_self: "\<exists>l. st = st\<lparr>log := l\<rparr>"
  by (rule exI [of _ "log st"]) simp

lemma clean_step_skip:
  assumes "keep excl hf ent = None" "scalar_index hf ent" "accepted feats excl hf ent"
  shows "\<exists>l. clean_step excl hf i ent st = st\<lparr>log := l\<rparr>"
  using assms
  by (auto simp: clean_step_def clean_body_def keep_def keyed_sample_def scalar_index_def
      accepted_def clean_state_log_self split: sum.splits option.splits if_splits)

lemma snoc_eq_map:
  assumes "es @ [b] = map f rs"
  shows "es = map f (butlast rs)" and "b = f (last rs)" and "rs \<noteq> []"
proof -
  show ne: "rs \<noteq> []" using assms by auto
  have "butlast (es @ [b]) = butlast (map f rs)" and "last (es @ [b]) = last (map f rs)"
    using assms by simp_all
  then show "es = map f (butlast rs)" and "b = f (last rs)"
    using ne by (simp_all add: map_butlast last_map)
qed

lemma clean_body_keep:
  assumes keep: "keep excl hf ent = Some (k, fr)" and acc: "accepted feats excl hf ent"
    and inv: "clean_inv feats xs st"
  shows "\<exists>st'. clean_body excl hf ent st = (st', None) \<and> clean_inv feats (xs @ [(k, fr)]) st'"
proof -
  obtain v s where r: "read_episode_index hf ent = Inr (Some v)" and sv: "scalar_of v = Some k"
    and nex: "k \<notin> set excl" and it: "snd ent = Inr s" and pf: "prepare_frame s = Inr fr"
    using keep by (rule keep_SomeE)
  have fok: "feats fr" using keep acc by (rule keep_accepted)
  have body: "clean_body excl hf ent st = obind (start_episode (Some v) st) (copy_sample s)"
    using r sv nex it by (simp add: clean_body_def)
  have fo: "frame_ok (dst st) = feats" and sc: "samples_copied st = length xs"
    and ec: "episodes_copied st = length (episodes (dst st))"
    using inv by (simp_all add: clean_inv_def)
  show ?thesis
  proof (cases "xs = []")
    case True
    with inv have "current_episode st = None" "buffer (dst st) = []" "episodes (dst st) = []"
      by (simp_all add: clean_inv_def)
    with True body fo fok sc ec sv pf show ?thesis
      by (simp add: start_episode_first copy_sample_ok clean_inv_def)
  next
    case False
    let ?rs = "runs xs"
    from inv False obtain u where cu: "current_episode st = Some u"
      and su: "scalar_of u = Some (fst (last ?rs))"
      and eb: "episodes (dst st) @ [buffer (dst st)] = map snd ?rs"
      by (auto simp: clean_inv_def split: option.splits)
    have eps: "episodes (dst st) = map snd (butlast ?rs)" and buf: "buffer (dst st) = snd (last ?rs)"
      and rne: "?rs \<noteq> []"
      using snoc_eq_map [OF eb] by simp_all
    show ?thesis
    proof (cases "fst (last ?rs) = k")
      case True
      have "clean_body excl hf ent st = copy_sample s st"
        using body start_episode_same [OF cu su] True sv by simp
      with False True fo fok sc ec cu su eps buf pf show ?thesis
        by (simp add: copy_sample_ok clean_inv_def runs_snoc map_butlast)
    next
      case neq: False
      have bne: "buffer (dst st) \<noteq> []"
        using buf rne runs_nonempty [of "last ?rs" xs] by simp
      have sw: "start_episode (Some v) st =
              (st\<lparr>dst := (dst st)\<lparr>episodes := episodes (dst st) @ [buffer (dst st)], buffer := []\<rparr>,
                  log := log st @ [SavedEpisode (Some u)],
                  episodes_copied := Suc (episodes_copied st),
                  current_episode := Some v\<rparr>, None)"
        using start_episode_switch [OF cu su sv neq bne] .
      have "Suc (length (episodes (dst st))) = length ?rs"
        using eps rne by simp
      with sw body False neq fo fok sc ec sv eb pf show ?thesis
        by (simp add: copy_sample_ok clean_inv_def runs_snoc)
    qed
  qed
qed

lemma clean_step_keep:
  assumes "keep excl hf ent = Some (k, fr)" and "accepted feats excl hf ent"
    and "clean_inv feats xs st"
  shows "clean_inv feats (xs @ [(k, fr)]) (clean_step excl hf i ent st)"
  using clean_body_keep [OF assms] by (auto simp: clean_step_def)

subsection \<open>The whole loop\<close>

lemma clean_inv_log [simp]: "clean_inv feats xs (st\<lparr>log := l\<rparr>) = clean_inv feats xs st"
  by (simp add: clean_inv_def)

lemma transcribed_Nil [simp]: "transcribed excl hf [] = []"
  by (simp add: transcribed_def List.map_filter_simps)

lemma transcribed_Cons:
  "transcribed excl hf (ent # ents) =
     (case keep excl hf ent of None \<Rightarrow> [] | Some p \<Rightarrow> [p]) @ transcribed excl hf ents"
  by (simp add: transcribed_def List.map_filter_simps split: option.split)

lemma transcribed_append:
  "transcribed excl hf (xs @ ys) = transcribed excl hf xs @ transcribed excl hf ys"
  by (induction xs) (simp_all add: transcribed_Cons)

lemma clean_loop_inv:
  assumes "list_all (scalar_index hf) ents" "list_all (accepted feats excl hf) ents"
    and "clean_inv feats xs st"
  shows "clean_inv feats (xs @ transcribed excl hf ents) (clean_loop excl hf i ents st)"
  using assms
proof (induction ents arbitrary: i xs st)
  case Nil
  then show ?case by simp
next
  case (Cons ent ents)
  show ?case
  proof (cases "keep excl hf ent")
    case None
    from Cons.prems have "scalar_index hf ent" "accepted feats excl hf ent" by simp_all
    with None obtain l where "clean_step excl hf i ent st = st\<lparr>log := l\<rparr>"
      using clean_step_skip by blast
    with Cons None show ?thesis by (simp add: transcribed_Cons)
  next
    case (Some p)
    obtain k fr where p: "p = (k, fr)" by fastforce
    with Some Cons.prems have "clean_inv feats (xs @ [(k, fr)]) (clean_step excl hf i ent st)"
      by (intro clean_step_keep) auto
    with Cons.prems have "clean_inv feats ((xs @ [(k, fr)]) @ transcribed excl hf ents)
        (clean_loop excl hf (Suc i) ents (clean_step excl hf i ent st))"
      by (intro Cons.IH) simp_all
    with Some p show ?thesis by (simp add: transcribed_Cons)
  qed
qed

lemma save_final_inv:
  assumes "clean_inv feats xs st"
  shows "\<exists>st'. save_final st = Inr st' \<and> episodes (dst st') = map snd (runs xs) \<and>
           buffer (dst st') = [] \<and> samples_copied st' = length xs \<and>
           episodes_copied st' = length (runs xs)"
proof (cases "xs = []")
  case True
  with assms show ?thesis by (simp add: clean_inv_def save_final_def)
next
  case False
  with assms obtain u where cu: "current_episode st = Some u"
    and eb: "episodes (dst st) @ [buffer (dst st)] = map snd (runs xs)"
    and sc: "samples_copied st = length xs" and ec: "episodes_copied st = length (episodes (dst st))"
    by (auto simp: clean_inv_def split: option.splits)
  have buf: "buffer (dst st) = snd (last (runs xs))" and rne: "runs xs \<noteq> []"
    using snoc_eq_map [OF eb] by simp_all
  then have "buffer (dst st) \<noteq> []"
    using runs_nonempty [of "last (runs xs)" xs] by simp
  moreover have "Suc (length (episodes (dst st))) = length (runs xs)"
    using arg_cong [OF eb, of length] by simp
  ultimately show ?thesis
    using cu eb sc ec by (simp add: save_final_def)
qed

lemma clean_inv_init: "clean_inv (src_features src) [] (init_clean_state src target excl)"
  by (simp add: clean_inv_def init_clean_state_def)

text \<open>
  The result of the whole function when every readable row has a scalar index and
  every frame that reaches \<^verbatim>\<open>add_frame\<close> is accepted: the script finishes, and the
  output is the runs of the transcribed samples.
\<close>

lemma create_clean_dataset_result:
  assumes "list_all (scalar_index (has_hf_dataset src)) (entries src)"
    and "list_all (accepted (src_features src) excl (has_hf_dataset src)) (entries src)"
  defines "T \<equiv> transcribed excl (has_hf_dataset src) (entries src)"
  shows "\<exists>st. create_clean_dataset src target excl = Inr st \<and>
           episodes (dst st) = map snd (runs T) \<and> buffer (dst st) = [] \<and> pushed (dst st) \<and>
           samples_copied st = length T \<and> episodes_copied st = length (runs T)"
proof -
  have "clean_inv (src_features src) ([] @ T)
          (clean_loop excl (has_hf_dataset src) 0 (entries src) (init_clean_state src target excl))"
    unfolding T_def using assms(1,2) clean_inv_init by (rule clean_loop_inv)
  then obtain st' where "save_final (clean_loop excl (has_hf_dataset src) 0 (entries src)
                          (init_clean_state src target excl)) = Inr st'"
    and "episodes (dst st') = map snd (runs T)" "buffer (dst st') = []"
    "samples_copied st' = length T" "episodes_copied st' = length (runs T)"
    using save_final_inv by fastforce
  then show ?thesis by (simp add: create_clean_dataset_def)
qed

subsection \<open>The skip reports\<close>

lemma skipped_indices_Nil [simp]: "skipped_indices [] = []"
  by (simp add: skipped_indices_def List.map_filter_simps)

lemma skipped_indices_Cons [simp]:
  "skipped_indices (m # l) = (case m of SkippingSample i e \<Rightarrow> [i] | _ \<Rightarrow> []) @ skipped_indices l"
  by (cases m) (simp_all add: skipped_indices_def List.map_filter_simps)

lemma skipped_indices_append [simp]:
  "skipped_indices (l @ l') = skipped_indices l @ skipped_indices l'"
  by (induction l) simp_all

lemma clean_body_log:
  "\<exists>l. log (fst (clean_body excl hf ent st)) = log st @ l \<and> skipped_indices l = []"
  by (auto simp: clean_body_def start_episode_def copy_sample_def olift_def raise_at_def ok_def Let_def
      split: sum.split bool.split option.split prod.split)

lemma clean_step_skipped:
  "skipped_indices (log (clean_step excl hf i ent st)) =
     skipped_indices (log st) @ (if snd (clean_body excl hf ent st) = None then [] else [i])"
  using clean_body_log [of excl hf ent st]
  by (auto simp: clean_step_def split: prod.split option.split)


lemma clean_body_broken:
  assumes "keep [] True ent = None" and "\<not> isl (fst ent)" and "scalar_index True ent"
    and "accepted feats [] True ent"
  shows "\<exists>e. snd ent = Inl e \<and> snd (clean_body [] True ent st) = Some e"
  using assms
  by (auto simp: keep_def keyed_sample_def scalar_index_def accepted_def read_episode_index_def
      clean_body_def olift_def raise_at_def split: sum.splits option.splits)

lemma clean_loop_skipped:
  assumes "list_all (\<lambda>ent. \<not> isl (fst ent)) ents" and "list_all (scalar_index True) ents"
    and "list_all (accepted feats [] True) ents" and "clean_inv feats xs st"
  shows "skipped_indices (log (clean_loop [] True i ents st)) =
           skipped_indices (log st) @ filter (\<lambda>j. isl (snd (ents ! (j - i)))) [i..<i + length ents]"
  using assms
proof (induction ents arbitrary: i xs st)
  case Nil
  then show ?case by simp
next
  case (Cons ent ents)
  from Cons.prems have ent: "\<not> isl (fst ent)" "scalar_index True ent" "accepted feats [] True ent"
    by simp_all
  show ?case
  proof (cases "keep [] True ent")
    case None
    then obtain e where se: "snd ent = Inl e" and bd: "snd (clean_body [] True ent st) = Some e"
      using clean_body_broken [OF None ent] by blast
    obtain l where stp: "clean_step [] True i ent st = st\<lparr>log := l\<rparr>"
      using clean_step_skip [OF None ent(2,3)] by blast
    have "skipped_indices (log (clean_loop [] True (Suc i) ents (clean_step [] True i ent st))) =
            skipped_indices (log (clean_step [] True i ent st)) @
            filter (\<lambda>j. isl (snd (ents ! (j - Suc i)))) [Suc i..<Suc i + length ents]"
      using Cons.prems stp by (intro Cons.IH [of xs]) simp_all
    then show ?thesis
      using clean_step_skipped [of "[]" True i ent st] se bd
      by (simp add: filter_upt_Cons_shift [where P = "\<lambda>y. isl (snd y)"] del: upt_Suc)
  next
    case (Some p)
    obtain k fr where p: "p = (k, fr)" by fastforce
    obtain st' where bd: "clean_body [] True ent st = (st', None)"
      and inv': "clean_inv feats (xs @ [(k, fr)]) st'"
      using clean_body_keep [of "[]" True ent k fr feats xs st] Some p ent Cons.prems(4) by blast
    obtain s where se: "snd ent = Inr s" using Some p by (auto elim: keep_SomeE)
    have stp: "clean_step [] True i ent st = st'" using bd by (simp add: clean_step_def)
    have "skipped_indices (log (clean_loop [] True (Suc i) ents st')) =
            skipped_indices (log st') @
            filter (\<lambda>j. isl (snd (ents ! (j - Suc i)))) [Suc i..<Suc i + length ents]"
      using Cons.prems inv' by (intro Cons.IH [of "xs @ [(k, fr)]"]) simp_all
    then show ?thesis
      using clean_step_skipped [of "[]" True i ent st] se bd stp
      by (simp add: filter_upt_Cons_shift [where P = "\<lambda>y. isl (snd y)"] del: upt_Suc)
  qed
qed

lemma save_final_skipped:
  "save_final st = Inr st' \<Longrightarrow> skipped_indices (log st') = skipped_indices (log st)"
  by (auto simp: save_final_def split: if_splits sum.splits)

subsection \<open>The counters in every reachable state\<close>

lemma clean_body_honest:
  "counters_honest st \<Longrightarrow> counters_honest (fst (clean_body excl hf ent st))"
  by (auto simp: counters_honest_def clean_body_def start_episode_def copy_sample_def olift_def
      raise_at_def ok_def Let_def add_frame_def save_episode_def
      split: sum.split bool.split option.split prod.split if_splits)

lemma clean_step_honest:
  "counters_honest st \<Longrightarrow> counters_honest (clean_step excl hf i ent st)"
  using clean_body_honest [of st excl hf ent]
  by (auto simp: clean_step_def counters_honest_def split: prod.split option.split)

lemma clean_reachable_honest:
  "clean_reachable excl hf st0 st \<Longrightarrow> counters_honest st0 \<Longrightarrow> counters_honest st"
  by (induction rule: clean_reachable.induct) (simp_all add: clean_step_honest)

lemma clean_loop_reachable:
  "clean_reachable excl hf st0 st \<Longrightarrow> clean_reachable excl hf st0 (clean_loop excl hf i ents st)"
  by (induction ents arbitrary: i st) (simp_all add: clean_reachable.reach_step)

lemma save_final_honest:
  "counters_honest st \<Longrightarrow> save_final st = Inr st' \<Longrightarrow> counters_honest st'"
  by (auto simp: save_final_def counters_honest_def save_episode_def split: if_splits sum.splits)

lemma create_clean_dataset_honest:
  assumes "create_clean_dataset src target excl = Inr st"
  shows "\<exists>st'. counters_honest st' \<and> st = st'\<lparr>dst := push_to_hub (dst st'),
           log := log st' @ [CleaningComplete, SamplesCopiedTotal (samples_copied st'),
                             EpisodesCopiedTotal (episodes_copied st'), UploadingClean, CleanUploaded target]\<rparr>"
proof -
  let ?s_init = "init_clean_state src target excl"
  let ?s_loop = "clean_loop excl (has_hf_dataset src) 0 (entries src) ?s_init"
  have "counters_honest ?s_init" by (simp add: counters_honest_def init_clean_state_def)
  moreover have "clean_reachable excl (has_hf_dataset src) ?s_init ?s_loop"
    by (rule clean_loop_reachable [OF clean_reachable.reach_start])
  ultimately have "counters_honest ?s_loop" by (simp add: clean_reachable_honest)
  moreover obtain st' where "save_final ?s_loop = Inr st'"
    and "st = st'\<lparr>dst := push_to_hub (dst st'),
           log := log st' @ [CleaningComplete, SamplesCopiedTotal (samples_copied st'),
                             EpisodesCopiedTotal (episodes_copied st'), UploadingClean, CleanUploaded target]\<rparr>"
    using assms by (auto simp: create_clean_dataset_def split: sum.splits)
  ultimately show ?thesis using save_final_honest by blast
qed

subsection \<open>Exclusion is silent\<close>

text \<open>
  An index whose episode is excluded changes nothing, the printed messages included:
  the \<^verbatim>\<open>continue\<close> of line 42 reports nothing, unlike the skips of the \<^verbatim>\<open>except\<close> clause.
\<close>

lemma clean_excluded_silent:
  assumes "read_episode_index hf ent = Inr (Some v)" and "scalar_of v = Some k" and "k \<in> set excl"
  shows "clean_step excl hf i ent st = st"
  using assms by (simp add: clean_step_def clean_body_def olift_def ok_def)

lemma clean_loop_excluded:
  "list_all (\<lambda>ent. case read_episode_index hf ent of
                     Inr (Some v) \<Rightarrow> (case scalar_of v of Some k \<Rightarrow> k \<in> set excl | None \<Rightarrow> False)
                   | _ \<Rightarrow> False) ents \<Longrightarrow>
   clean_loop excl hf i ents st = st"
proof (induction ents arbitrary: i)
  case (Cons ent ents)
  then obtain v k where "read_episode_index hf ent = Inr (Some v)" "scalar_of v = Some k" "k \<in> set excl"
    by (auto split: sum.splits option.splits)
  with Cons show ?case by (simp add: clean_excluded_silent)
qed simp

subsection \<open>Facts the properties share\<close>

lemma transcribed_member:
  "p \<in> set (transcribed excl hf ents) \<Longrightarrow> \<exists>ent \<in> set ents. keep excl hf ent = Some p"
  by (induction ents) (auto simp: transcribed_Cons split: option.splits)

lemma keep_not_excluded: "keep excl hf ent = Some (k, fr) \<Longrightarrow> k \<notin> set excl"
  by (erule keep_SomeE) simp

lemma keep_broken: "snd ent = Inl e \<Longrightarrow> keep excl hf ent = None"
  by (simp add: keep_def keyed_sample_def split: sum.splits option.splits)

lemma no_hf_facts:
  "scalar_index False ent" "accepted feats excl False ent" "keep excl False ent = None"
  by (simp_all add: scalar_index_def accepted_def keep_def keyed_sample_def read_episode_index_def
      split: sum.splits)

lemma clean_step_no_hf:
  "clean_step excl False i ent st =
     st\<lparr>log := log st @ [SkippingSample i (case snd ent of Inl e \<Rightarrow> e | Inr s \<Rightarrow> NameError ''torch'')]\<rparr>"
  by (simp add: clean_step_def clean_body_def read_episode_index_def split: sum.split)

lemma clean_loop_no_hf:
  "clean_loop excl False i ents st =
     st\<lparr>log := log st @ map (\<lambda>(j, ent). SkippingSample j (case snd ent of Inl e \<Rightarrow> e | Inr s \<Rightarrow> NameError ''torch''))
                              (zip [i..<i + length ents] ents)\<rparr>"
proof (induction ents arbitrary: i st)
  case Nil
  then show ?case by simp
next
  case (Cons ent ents)
  have u: "[i..<Suc (i + length ents)] = i # [Suc i..<Suc (i + length ents)]"
    by (simp add: upt_conv_Cons del: upt_Suc)
  show ?case
    using Cons [of "Suc i"] by (simp add: clean_step_no_hf u del: upt_Suc)
qed

subsection \<open>Correctness of the transcription\<close>

lemma ex_entry_facts [simp]:
  "scalar_index True (ex_entry e)" "accepted (\<lambda>fr. True) excl True (ex_entry e)"
  "scalar_index True (ex_broken e)" "accepted (\<lambda>fr. True) excl True (ex_broken e)"
  "keep excl True (ex_entry e) = (if e \<in> set excl then None else Some (e, ex_frame e))"
  "keep excl True (ex_broken e) = None"
  "snd (ex_broken e) = Inl (LibraryError ''corrupted video frame'')"
  by (simp_all add: scalar_index_def accepted_def keep_def keyed_sample_def read_episode_index_def
      ex_entry_def ex_broken_def prepare_frame_def ex_sample_def ex_frame_def add_item_def
      bookkeeping_keys_def frame_value_def)

lemma ex_source_fields [simp]:
  "has_hf_dataset (ex_source hf es) = hf" "entries (ex_source hf es) = es"
  "src_features (ex_source hf es) = (\<lambda>fr. True)"
  "src_num_episodes (ex_source hf es) = length (remdups (map fst es))"
  by (simp_all add: ex_source_def)

text \<open>
  Claim C1. Refinement of the transcription contract: when every readable row carries a
  scalar \<^verbatim>\<open>episode_index\<close> and every frame reaching \<^verbatim>\<open>add_frame\<close> is accepted,
  \<^verbatim>\<open>create_clean_dataset\<close> finishes, uploads, and its sealed episodes are exactly the
  maximal runs of equal episode index among the samples that are readable, not
  excluded and decodable, in source order.
\<close>

theorem clean_refines_runs:
  assumes "list_all (scalar_index (has_hf_dataset src)) (entries src)"
    and "list_all (accepted (src_features src) excl (has_hf_dataset src)) (entries src)"
  shows "\<exists>st. create_clean_dataset src target excl = Inr st \<and> pushed (dst st) \<and>
           episodes (dst st) = map snd (runs (transcribed excl (has_hf_dataset src) (entries src)))"
  using create_clean_dataset_result [OF assms] by blast

theorem clean_refines_runs_witness:
  "list_all (scalar_index True) [ex_entry 0, ex_entry 0, ex_entry 1] \<and>
   list_all (accepted (\<lambda>fr. True) [] True) [ex_entry 0, ex_entry 0, ex_entry 1] \<and>
   (\<exists>st. create_clean_dataset (ex_source True [ex_entry 0, ex_entry 0, ex_entry 1]) ''clean'' [] = Inr st \<and>
        pushed (dst st) \<and> episodes (dst st) = [[ex_frame 0, ex_frame 0], [ex_frame 1]])"
  using clean_refines_runs [of "ex_source True [ex_entry 0, ex_entry 0, ex_entry 1]" "[]" "''clean''"]
  by (simp add: transcribed_Cons)

text \<open>
  Claim C4. No frame is lost, duplicated or reordered: under the same conditions, the
  sealed episodes concatenated are the frames of the readable, non-excluded, decodable
  samples in source order.
\<close>

theorem clean_frames_in_order:
  assumes "list_all (scalar_index (has_hf_dataset src)) (entries src)"
    and "list_all (accepted (src_features src) excl (has_hf_dataset src)) (entries src)"
  shows "\<exists>st. create_clean_dataset src target excl = Inr st \<and>
           concat (episodes (dst st)) = map snd (transcribed excl (has_hf_dataset src) (entries src))"
proof -
  obtain st where "create_clean_dataset src target excl = Inr st"
    and "episodes (dst st) = map snd (runs (transcribed excl (has_hf_dataset src) (entries src)))"
    using create_clean_dataset_result [OF assms] by blast
  then show ?thesis by (metis runs_concat)
qed

theorem clean_frames_in_order_witness:
  "list_all (scalar_index True) [ex_entry 0, ex_broken 0, ex_entry 1] \<and>
   list_all (accepted (\<lambda>fr. True) [] True) [ex_entry 0, ex_broken 0, ex_entry 1] \<and>
   (\<exists>st. create_clean_dataset (ex_source True [ex_entry 0, ex_broken 0, ex_entry 1]) ''clean'' [] = Inr st \<and>
        concat (episodes (dst st)) = [ex_frame 0, ex_frame 1])"
  using clean_frames_in_order [of "ex_source True [ex_entry 0, ex_broken 0, ex_entry 1]" "[]" "''clean''"]
  by (simp add: transcribed_Cons)

text \<open>
  Claim C14. The printed totals are right: \<^verbatim>\<open>samples_copied\<close> is the number of frames appended
  and \<^verbatim>\<open>episodes_copied\<close> the number of episodes sealed, nothing being left unsealed in the
  buffer.
\<close>

theorem clean_counts:
  assumes "list_all (scalar_index (has_hf_dataset src)) (entries src)"
    and "list_all (accepted (src_features src) excl (has_hf_dataset src)) (entries src)"
  shows "\<exists>st. create_clean_dataset src target excl = Inr st \<and> buffer (dst st) = [] \<and>
           samples_copied st = length (concat (episodes (dst st))) \<and>
           episodes_copied st = length (episodes (dst st))"
proof -
  obtain st where "create_clean_dataset src target excl = Inr st"
    and "episodes (dst st) = map snd (runs (transcribed excl (has_hf_dataset src) (entries src)))"
    and "buffer (dst st) = []"
    and "samples_copied st = length (transcribed excl (has_hf_dataset src) (entries src))"
    and "episodes_copied st = length (runs (transcribed excl (has_hf_dataset src) (entries src)))"
    using create_clean_dataset_result [OF assms] by blast
  then show ?thesis
    by (metis length_map runs_concat)
qed

theorem clean_counts_witness:
  "list_all (scalar_index True) [ex_entry 0, ex_entry 0, ex_entry 1] \<and>
   list_all (accepted (\<lambda>fr. True) [] True) [ex_entry 0, ex_entry 0, ex_entry 1] \<and>
   (\<exists>st. create_clean_dataset (ex_source True [ex_entry 0, ex_entry 0, ex_entry 1]) ''clean'' [] = Inr st \<and>
        buffer (dst st) = [] \<and> samples_copied st = length (concat (episodes (dst st))) \<and>
        episodes_copied st = length (episodes (dst st)))"
  using clean_counts [of "ex_source True [ex_entry 0, ex_entry 0, ex_entry 1]" "[]" "''clean''"]
  by simp

text \<open>
  Claim C19. Specification, testable property 1: when the surviving samples'
  episode indices are non-decreasing, the number of episodes sealed is the number of
  distinct surviving episode indices.
\<close>

theorem clean_sorted_episode_count:
  assumes "list_all (scalar_index (has_hf_dataset src)) (entries src)"
    and "list_all (accepted (src_features src) excl (has_hf_dataset src)) (entries src)"
    and "sorted (map fst (transcribed excl (has_hf_dataset src) (entries src)))"
  shows "\<exists>st. create_clean_dataset src target excl = Inr st \<and>
           episodes_copied st = card (set (map fst (transcribed excl (has_hf_dataset src) (entries src))))"
proof -
  let ?T = "transcribed excl (has_hf_dataset src) (entries src)"
  obtain st where "create_clean_dataset src target excl = Inr st"
    and ec: "episodes_copied st = length (runs ?T)"
    using create_clean_dataset_result [OF assms(1,2)] by blast
  moreover have "length (runs ?T) = card (set (map fst ?T))"
    using length_remdups_adj_sorted [OF assms(3)] arg_cong [OF runs_keys [of ?T], of length]
    by simp
  ultimately show ?thesis by auto
qed

theorem clean_sorted_episode_count_witness:
  "list_all (scalar_index True) [ex_entry 0, ex_entry 0, ex_entry 1, ex_entry 2, ex_entry 2] \<and>
   list_all (accepted (\<lambda>fr. True) [1] True) [ex_entry 0, ex_entry 0, ex_entry 1, ex_entry 2, ex_entry 2] \<and>
   sorted (map fst (transcribed [1] True [ex_entry 0, ex_entry 0, ex_entry 1, ex_entry 2, ex_entry 2])) \<and>
   (\<exists>st. create_clean_dataset (ex_source True [ex_entry 0, ex_entry 0, ex_entry 1, ex_entry 2, ex_entry 2])
           ''clean'' [1] = Inr st \<and> episodes_copied st = 2)"
  using clean_sorted_episode_count
    [of "ex_source True [ex_entry 0, ex_entry 0, ex_entry 1, ex_entry 2, ex_entry 2]" "[1]" "''clean''"]
  by (simp add: transcribed_Cons numeral_2_eq_2)

text \<open>
  Claim C5. Exclusion is checked against the raw episode index: every frame of the
  output comes from a source index whose sample was read and decoded and whose episode
  is not in the exclusion list, so no fragment of an excluded episode is copied.
\<close>

theorem clean_excluded_absent:
  assumes "list_all (scalar_index (has_hf_dataset src)) (entries src)"
    and "list_all (accepted (src_features src) excl (has_hf_dataset src)) (entries src)"
  shows "\<exists>st. create_clean_dataset src target excl = Inr st \<and>
           (\<forall>ep \<in> set (episodes (dst st)). \<forall>fr \<in> set ep.
              \<exists>ent \<in> set (entries src). \<exists>k. keep excl (has_hf_dataset src) ent = Some (k, fr) \<and>
                 k \<notin> set excl)"
proof -
  let ?T = "transcribed excl (has_hf_dataset src) (entries src)"
  obtain st where r: "create_clean_dataset src target excl = Inr st"
    and eps: "episodes (dst st) = map snd (runs ?T)"
    using create_clean_dataset_result [OF assms] by blast
  have "\<exists>ent \<in> set (entries src). \<exists>k. keep excl (has_hf_dataset src) ent = Some (k, fr) \<and> k \<notin> set excl"
    if "ep \<in> set (episodes (dst st))" "fr \<in> set ep" for ep fr
  proof -
    from that eps obtain k where "(k, ep) \<in> set (runs ?T)" by auto
    then have "(k, fr) \<in> set ?T" using that(2) by (rule runs_members)
    then obtain ent where "ent \<in> set (entries src)" "keep excl (has_hf_dataset src) ent = Some (k, fr)"
      using transcribed_member by blast
    then show ?thesis using keep_not_excluded by blast
  qed
  with r show ?thesis by blast
qed

theorem clean_excluded_absent_witness:
  "list_all (scalar_index True) [ex_entry 0, ex_entry 49, ex_entry 50] \<and>
   list_all (accepted (\<lambda>fr. True) [49] True) [ex_entry 0, ex_entry 49, ex_entry 50] \<and>
   (\<exists>st. create_clean_dataset (ex_source True [ex_entry 0, ex_entry 49, ex_entry 50]) ''clean'' [49] = Inr st \<and>
      (\<forall>ep \<in> set (episodes (dst st)). \<forall>fr \<in> set ep.
         \<exists>ent \<in> set [ex_entry 0, ex_entry 49, ex_entry 50]. \<exists>k. keep [49] True ent = Some (k, fr) \<and> k \<notin> set [49]))"
  using clean_excluded_absent [of "ex_source True [ex_entry 0, ex_entry 49, ex_entry 50]" "[49]" "''clean''"]
  by simp

text \<open>
  Claim C6. Specification, testable property 4: a sample that fails to decode, inserted
  anywhere in the source, changes nothing in the output: the samples before and after it
  are copied, and its episode is still sealed as one episode once its run ends.
\<close>

theorem clean_skip_robust:
  assumes "list_all (scalar_index (has_hf_dataset src)) (xs @ ys)"
    and "list_all (accepted (src_features src) excl (has_hf_dataset src)) (xs @ ys)"
    and "scalar_index (has_hf_dataset src) bad" and "snd bad = Inl e"
  shows "\<exists>st st'. create_clean_dataset (src\<lparr>entries := xs @ bad # ys\<rparr>) target excl = Inr st \<and>
           create_clean_dataset (src\<lparr>entries := xs @ ys\<rparr>) target excl = Inr st' \<and>
           episodes (dst st) = episodes (dst st')"
proof -
  let ?hf = "has_hf_dataset src"
  have kb: "keep excl ?hf bad = None" using assms(4) by (rule keep_broken)
  then have ab: "accepted (src_features src) excl ?hf bad"
    using assms(4) by (simp add: accepted_def keep_def keyed_sample_def split: sum.splits option.splits)
  have "list_all (scalar_index ?hf) (xs @ bad # ys)"
    and "list_all (accepted (src_features src) excl ?hf) (xs @ bad # ys)"
    using assms(1,2,3) ab by auto
  then obtain st where "create_clean_dataset (src\<lparr>entries := xs @ bad # ys\<rparr>) target excl = Inr st"
    and "episodes (dst st) = map snd (runs (transcribed excl ?hf (xs @ bad # ys)))"
    using create_clean_dataset_result [of "src\<lparr>entries := xs @ bad # ys\<rparr>" excl target] by auto
  moreover obtain st' where "create_clean_dataset (src\<lparr>entries := xs @ ys\<rparr>) target excl = Inr st'"
    and "episodes (dst st') = map snd (runs (transcribed excl ?hf (xs @ ys)))"
    using create_clean_dataset_result [of "src\<lparr>entries := xs @ ys\<rparr>" excl target] assms(1,2) by auto
  moreover have "transcribed excl ?hf (xs @ bad # ys) = transcribed excl ?hf (xs @ ys)"
    using kb by (simp add: transcribed_append transcribed_Cons)
  ultimately show ?thesis by auto
qed

theorem clean_skip_robust_witness:
  "list_all (scalar_index True) [ex_entry 0, ex_entry 0] \<and>
   list_all (accepted (\<lambda>fr. True) [] True) [ex_entry 0, ex_entry 0] \<and>
   scalar_index True (ex_broken 0) \<and> snd (ex_broken 0) = Inl (LibraryError ''corrupted video frame'') \<and>
   (\<exists>st st'. create_clean_dataset ((ex_source True [])\<lparr>entries := [ex_entry 0] @ ex_broken 0 # [ex_entry 0]\<rparr>) ''clean'' [] = Inr st \<and>
      create_clean_dataset ((ex_source True [])\<lparr>entries := [ex_entry 0] @ [ex_entry 0]\<rparr>) ''clean'' [] = Inr st' \<and>
      episodes (dst st) = episodes (dst st'))"
  using clean_skip_robust [of "ex_source True []" "[ex_entry 0]" "[ex_entry 0]" "[]" "ex_broken 0"
      "LibraryError ''corrupted video frame''" "''clean''"]
  by simp

text \<open>
  Claim C20. Specification, testable property 5: when every sample fails or is excluded,
  the script still finishes, seals no episode and never asks the output to seal an
  empty one.
\<close>

theorem clean_nothing_survives:
  assumes "list_all (scalar_index (has_hf_dataset src)) (entries src)"
    and "list_all (accepted (src_features src) excl (has_hf_dataset src)) (entries src)"
    and "transcribed excl (has_hf_dataset src) (entries src) = []"
  shows "\<exists>st. create_clean_dataset src target excl = Inr st \<and> episodes (dst st) = [] \<and>
           episodes_copied st = 0 \<and> samples_copied st = 0"
  using create_clean_dataset_result [OF assms(1,2)] assms(3) by auto

theorem clean_nothing_survives_witness:
  "list_all (scalar_index True) [ex_entry 49, ex_broken 3] \<and>
   list_all (accepted (\<lambda>fr. True) [49] True) [ex_entry 49, ex_broken 3] \<and>
   transcribed [49] True [ex_entry 49, ex_broken 3] = [] \<and>
   (\<exists>st. create_clean_dataset (ex_source True [ex_entry 49, ex_broken 3]) ''clean'' [49] = Inr st \<and>
        episodes (dst st) = [] \<and> episodes_copied st = 0 \<and> samples_copied st = 0)"
  using clean_nothing_survives [of "ex_source True [ex_entry 49, ex_broken 3]" "[49]" "''clean''"]
  by (simp add: transcribed_Cons)

text \<open>
  Claim C21. The fallback path is dead: without an \<^verbatim>\<open>hf_dataset\<close> attribute every
  index raises (the sample's own load error, or \<open>NameError\<close> on the unimported
  \<^verbatim>\<open>torch\<close>), the \<^verbatim>\<open>except\<close> clause reports every index as corrupted, and nothing is copied.
\<close>

theorem clean_without_hf_copies_nothing:
  assumes "\<not> has_hf_dataset src"
  shows "\<exists>st. create_clean_dataset src target excl = Inr st \<and> samples_copied st = 0 \<and>
           episodes (dst st) = [] \<and>
           log st = [LoadingSource (src_repo src), CreatingClean target, ExcludingEpisodes excl] @
                    map (\<lambda>(i, ent). SkippingSample i (case snd ent of Inl e \<Rightarrow> e | Inr s \<Rightarrow> NameError ''torch''))
                      (zip [0..<length (entries src)] (entries src)) @
                    [CleaningComplete, SamplesCopiedTotal 0, EpisodesCopiedTotal 0, UploadingClean,
                     CleanUploaded target]"
  using assms
  by (simp add: create_clean_dataset_def clean_loop_no_hf save_final_def init_clean_state_def)

theorem clean_without_hf_copies_nothing_witness:
  "\<not> has_hf_dataset (ex_source False [ex_entry 0, ex_entry 0]) \<and>
   (\<exists>st. create_clean_dataset (ex_source False [ex_entry 0, ex_entry 0]) ''clean'' [] = Inr st \<and>
      samples_copied st = 0 \<and> episodes (dst st) = [] \<and>
      log st = [LoadingSource ''Flimdejong/touch_black_chip'', CreatingClean ''clean'', ExcludingEpisodes [],
                SkippingSample 0 (NameError ''torch''), SkippingSample 1 (NameError ''torch''),
                CleaningComplete, SamplesCopiedTotal 0, EpisodesCopiedTotal 0, UploadingClean,
                CleanUploaded ''clean''])"
  using clean_without_hf_copies_nothing [of "ex_source False [ex_entry 0, ex_entry 0]" "''clean''" "[]"]
  by (simp add: ex_entry_def ex_source_def upt_rec)

text \<open>
  Claim C10. Whatever the source holds, when \<^verbatim>\<open>create_clean_dataset\<close> finishes, the totals
  it prints (lines 82--84) are what the output holds: \<^verbatim>\<open>samples_copied\<close> counts the
  frames of the sealed episodes and of the open buffer, \<^verbatim>\<open>episodes_copied\<close> the sealed
  episodes. Frames left in the buffer (rows without \<^verbatim>\<open>episode_index\<close> never open an
  episode) are counted and uploaded unsealed.
\<close>

theorem clean_totals_honest:
  assumes "create_clean_dataset src target excl = Inr st"
  shows "\<exists>pre. log st = pre @ [CleaningComplete,
            SamplesCopiedTotal (length (concat (episodes (dst st))) + length (buffer (dst st))),
            EpisodesCopiedTotal (length (episodes (dst st))), UploadingClean, CleanUploaded target]"
  using create_clean_dataset_honest [OF assms] by (auto simp: counters_honest_def)

theorem clean_totals_honest_witness:
  "\<exists>st. create_clean_dataset (ex_source True [(Inr [], Inr (ex_sample 0)), (Inr [], Inr (ex_sample 0))])
          ''clean'' [] = Inr st \<and>
     episodes (dst st) = [] \<and> length (buffer (dst st)) = 2 \<and> pushed (dst st) \<and>
     (\<exists>pre. log st = pre @ [CleaningComplete, SamplesCopiedTotal 2, EpisodesCopiedTotal 0, UploadingClean,
                             CleanUploaded ''clean''])"
proof -
  let ?src = "ex_source True [(Inr [], Inr (ex_sample 0)), (Inr [], Inr (ex_sample 0))]"
  have r: "\<exists>st. create_clean_dataset ?src ''clean'' [] = Inr st \<and> episodes (dst st) = [] \<and>
             length (buffer (dst st)) = 2 \<and> pushed (dst st)"
    by (simp add: create_clean_dataset_def init_clean_state_def clean_step_def clean_body_def
        read_episode_index_def ex_source_def start_episode_def copy_sample_def olift_def ok_def
        prepare_frame_def ex_sample_def add_item_def bookkeeping_keys_def frame_value_def
        save_final_def create_def numeral_2_eq_2)
  then obtain st where c: "create_clean_dataset ?src ''clean'' [] = Inr st"
    and e: "episodes (dst st) = []" "length (buffer (dst st)) = 2" "pushed (dst st)" by blast
  show ?thesis using clean_totals_honest [OF c] c e by auto
qed

text \<open>
  Claim C26. Exclusions are silent, against the specification's "skip and log": when
  every index of the source belongs to an excluded episode, the run prints its header and
  the zero totals and nothing about any index, and uploads an empty dataset.
\<close>

theorem clean_exclusion_unreported:
  assumes "list_all (\<lambda>ent. case read_episode_index (has_hf_dataset src) ent of
                     Inr (Some v) \<Rightarrow> (case scalar_of v of Some k \<Rightarrow> k \<in> set excl | None \<Rightarrow> False)
                   | _ \<Rightarrow> False) (entries src)"
  shows "create_clean_dataset src target excl =
           Inr ((init_clean_state src target excl)\<lparr>dst := push_to_hub (create target (src_fps src) (src_features src)),
                 log := [LoadingSource (src_repo src), CreatingClean target, ExcludingEpisodes excl,
                         CleaningComplete, SamplesCopiedTotal 0, EpisodesCopiedTotal 0, UploadingClean,
                         CleanUploaded target]\<rparr>)"
  using clean_loop_excluded [OF assms]
  by (simp add: create_clean_dataset_def save_final_def init_clean_state_def)

theorem clean_exclusion_unreported_witness:
  "list_all (\<lambda>ent. case read_episode_index (has_hf_dataset (ex_source True [ex_entry 49, ex_entry 49])) ent of
                     Inr (Some v) \<Rightarrow> (case scalar_of v of Some k \<Rightarrow> k \<in> set [49] | None \<Rightarrow> False)
                   | _ \<Rightarrow> False) (entries (ex_source True [ex_entry 49, ex_entry 49])) \<and>
   (\<exists>st. create_clean_dataset (ex_source True [ex_entry 49, ex_entry 49]) ''clean'' [49] = Inr st \<and>
      log st = [LoadingSource ''Flimdejong/touch_black_chip'', CreatingClean ''clean'', ExcludingEpisodes [49],
                CleaningComplete, SamplesCopiedTotal 0, EpisodesCopiedTotal 0, UploadingClean,
                CleanUploaded ''clean''])"
proof -
  have l: "list_all (\<lambda>ent. case read_episode_index (has_hf_dataset (ex_source True [ex_entry 49, ex_entry 49])) ent of
                     Inr (Some v) \<Rightarrow> (case scalar_of v of Some k \<Rightarrow> k \<in> set [49] | None \<Rightarrow> False)
                   | _ \<Rightarrow> False) (entries (ex_source True [ex_entry 49, ex_entry 49]))"
    by (simp add: read_episode_index_def ex_entry_def)
  show ?thesis using clean_exclusion_unreported [OF l, of "''clean''"] l by (simp add: ex_source_def)
qed

end
