(* ===== verification/MergeDatasets.thy ===== *)
theory MergeDatasets
  imports CleanDataset
begin

text \<open>
  \<^verbatim>\<open>src/own_scripts/merge_datasets.py\<close>, \<^verbatim>\<open>main\<close>: copy the virtual concatenation of two
  datasets (lerobot's \<^verbatim>\<open>MultiLeRobotDataset\<close>) into one physical dataset, with the
  fps and features of the first. The copy loop is the one of \<^verbatim>\<open>clean_dataset.py\<close>
  without \<^verbatim>\<open>try\<close>: any exception ends the script, so every operation returns
  \<open>exc + merge_state\<close>. The episode index is read from the decoded sample with
  \<^verbatim>\<open>.item()\<close>, and the final \<^verbatim>\<open>save_episode\<close> is unconditional.
\<close>

text \<open>Lines 6--8: the module's repository identifiers.\<close>

definition DATASET_1 :: string where "DATASET_1 = ''Flimdejong/left_1''"

definition DATASET_2 :: string where "DATASET_2 = ''Flimdejong/right_1''"

definition MERGED_NAME :: string where "MERGED_NAME = ''Flimdejong/merged_left_right''"

subsection \<open>The virtual concatenation\<close>

text \<open>
  \<^verbatim>\<open>MultiLeRobotDataset\<close> (external, modelled from the specification): the samples of
  each dataset in turn, each tagged with the key \<^verbatim>\<open>dataset_index\<close> holding the
  position of its dataset. Episode indices are not renumbered.
\<close>

definition tag_dataset :: "nat \<Rightarrow> exc + sample \<Rightarrow> exc + sample" where
  "tag_dataset j r =
     (case r of Inl e \<Rightarrow> Inl e | Inr s \<Rightarrow> Inr (s @ [(''dataset_index'', VTensor [] [int j])]))"

fun virtual_merge_from :: "nat \<Rightarrow> (exc + sample) list list \<Rightarrow> (exc + sample) list" where
  "virtual_merge_from j [] = []"
| "virtual_merge_from j (d # ds) = map (tag_dataset j) d @ virtual_merge_from (Suc j) ds"

definition virtual_merge :: "(exc + sample) list list \<Rightarrow> (exc + sample) list" where
  "virtual_merge ds = virtual_merge_from 0 ds"

subsection \<open>The copy loop\<close>

text \<open>\<^verbatim>\<open>.item()\<close> on the value of \<^verbatim>\<open>episode_index\<close> (line 34).\<close>

fun py_item :: "val \<Rightarrow> exc + int" where
  "py_item (VTensor sh [x]) = Inr x"
| "py_item (VTensor sh d) = Inl (RuntimeError ''a Tensor with several elements cannot be converted to Scalar'')"
| "py_item (VArray sh [x]) = Inr x"
| "py_item (VArray sh d) = Inl (ValueError ''can only convert an array of size 1 to a Python scalar'')"
| "py_item (VStr s) = Inl (AttributeError ''item'')"
| "py_item (VInt x) = Inl (AttributeError ''item'')"

definition sample_episode :: "sample \<Rightarrow> exc + int" where
  "sample_episode s =
     (case map_of s ''episode_index'' of None \<Rightarrow> Inl (KeyError ''episode_index'') | Some v \<Rightarrow> py_item v)"

text \<open>
  What \<^verbatim>\<open>main\<close> prints: the five step headers (lines 11, 19, 22, 30, 63), the size of
  the virtual merge (17), each seal (40, 61), the progress (57) and the success (65).
\<close>

datatype merge_msg =
    MergeStep nat
  | VirtualMergeInfo nat nat
  | MergeSavedEpisode "int option"
  | Processed nat nat
  | MergeSavedFinal "int option"
  | MergeSuccess string

record merge_state =
  m_current :: "int option"
  m_dst :: sink
  m_log :: "merge_msg list"

text \<open>Lines 37--41: seal the open episode when the index changes.\<close>

definition merge_open :: "int \<Rightarrow> merge_state \<Rightarrow> exc + merge_state" where
  "merge_open k st =
     (if m_current st \<noteq> Some k
      then (if m_current st \<noteq> None
            then (case save_episode (m_dst st) of
                    Inl e \<Rightarrow> Inl e
                  | Inr d \<Rightarrow> Inr (st\<lparr>m_dst := d, m_log := m_log st @ [MergeSavedEpisode (m_current st)],
                                     m_current := Some k\<rparr>))
            else Inr (st\<lparr>m_current := Some k\<rparr>))
      else Inr st)"

text \<open>Lines 44--57: build the frame, append it, report every hundredth sample.\<close>

definition merge_copy :: "nat \<Rightarrow> nat \<Rightarrow> sample \<Rightarrow> merge_state \<Rightarrow> exc + merge_state" where
  "merge_copy n_items i s st =
     (case prepare_frame s of
        Inl e \<Rightarrow> Inl e
      | Inr fr \<Rightarrow>
          (case add_frame fr (m_dst st) of
             Inl e \<Rightarrow> Inl e
           | Inr d \<Rightarrow> Inr (st\<lparr>m_dst := d,
                              m_log := m_log st @ (if Suc i mod 100 = 0 then [Processed (Suc i) n_items] else [])\<rparr>)))"

text \<open>Lines 33--57, one iteration: loading the sample is the iteration step itself.\<close>

definition merge_step :: "nat \<Rightarrow> nat \<Rightarrow> exc + sample \<Rightarrow> merge_state \<Rightarrow> exc + merge_state" where
  "merge_step n_items i item st =
     (case item of
        Inl e \<Rightarrow> Inl e
      | Inr s \<Rightarrow>
          (case sample_episode s of
             Inl e \<Rightarrow> Inl e
           | Inr k \<Rightarrow> (case merge_open k st of Inl e \<Rightarrow> Inl e | Inr st' \<Rightarrow> merge_copy n_items i s st')))"

text \<open>Line 33: \<^verbatim>\<open>for i, sample in enumerate(virtual_merge)\<close>.\<close>

fun merge_loop :: "nat \<Rightarrow> nat \<Rightarrow> (exc + sample) list \<Rightarrow> merge_state \<Rightarrow> exc + merge_state" where
  "merge_loop n_items i [] st = Inr st"
| "merge_loop n_items i (item # items) st =
     (case merge_step n_items i item st of Inl e \<Rightarrow> Inl e | Inr st' \<Rightarrow> merge_loop n_items (Suc i) items st')"

text \<open>Lines 59--61: the final seal, not guarded by an open episode.\<close>

definition merge_final :: "merge_state \<Rightarrow> exc + merge_state" where
  "merge_final st =
     (case save_episode (m_dst st) of
        Inl e \<Rightarrow> Inl e
      | Inr d \<Rightarrow> Inr (st\<lparr>m_dst := d, m_log := m_log st @ [MergeSavedFinal (m_current st)]\<rparr>))"

text \<open>
  Lines 11--31: the announcements, the size of the virtual merge (its length and
  \<^verbatim>\<open>num_episodes\<close>, the sum over the merged datasets), the output created with the fps
  and features of the first dataset, \<^verbatim>\<open>current_episode = None\<close>.
\<close>

definition merge_init :: "source \<Rightarrow> source \<Rightarrow> merge_state" where
  "merge_init ds1 ds2 =
     \<lparr>m_current = None,
      m_dst = create MERGED_NAME (src_fps ds1) (src_features ds1),
      m_log = [MergeStep 1,
               VirtualMergeInfo (length (virtual_merge [map snd (entries ds1), map snd (entries ds2)]))
                                (src_num_episodes ds1 + src_num_episodes ds2),
               MergeStep 2, MergeStep 3, MergeStep 4]\<rparr>"

text \<open>Lines 10--65: \<^verbatim>\<open>main\<close> on the two datasets.\<close>

definition merge_main :: "source \<Rightarrow> source \<Rightarrow> exc + merge_state" where
  "merge_main ds1 ds2 =
     (let items = virtual_merge [map snd (entries ds1), map snd (entries ds2)]
      in case merge_loop (length items) 0 items (merge_init ds1 ds2) of
           Inl e \<Rightarrow> Inl e
         | Inr st \<Rightarrow> (case merge_final st of
                        Inl e \<Rightarrow> Inl e
                      | Inr st' \<Rightarrow>
                          Inr (st'\<lparr>m_dst := push_to_hub (m_dst st'),
                                   m_log := m_log st' @ [MergeStep 5,
                                                          MergeSuccess MERGED_NAME]\<rparr>)))"

text \<open>
  Lines 67--68, the \<^verbatim>\<open>__main__\<close> block: \<open>load\<close> is what loading a repository returns;
  the virtual merge is built from \<^verbatim>\<open>DATASET_1\<close> and \<^verbatim>\<open>DATASET_2\<close> (line 13) and
  \<^verbatim>\<open>ds1\<close> is \<^verbatim>\<open>DATASET_1\<close> again (line 20).
\<close>

definition merge_script :: "(string \<Rightarrow> source) \<Rightarrow> exc + merge_state" where
  "merge_script load = merge_main (load DATASET_1) (load DATASET_2)"

subsection \<open>What the merge should copy\<close>

text \<open>
  A loaded sample with an integer episode index and a frame, and the condition under
  which the loop runs through: every item loads, has such an index, and its frame is
  accepted by the output's features.
\<close>

definition merge_keyed :: "exc + sample \<Rightarrow> (int \<times> frame) option" where
  "merge_keyed item =
     (case item of
        Inr s \<Rightarrow> (case (sample_episode s, prepare_frame s) of
                    (Inr k, Inr fr) \<Rightarrow> Some (k, fr)
                  | _ \<Rightarrow> None)
      | Inl e \<Rightarrow> None)"

definition merge_ok :: "features \<Rightarrow> exc + sample \<Rightarrow> bool" where
  "merge_ok feats item = (case merge_keyed item of Some (k, fr) \<Rightarrow> feats fr | None \<Rightarrow> False)"

definition merge_transcribed :: "(exc + sample) list \<Rightarrow> (int \<times> frame) list" where
  "merge_transcribed items = List.map_filter merge_keyed items"

definition merge_inv :: "features \<Rightarrow> (int \<times> frame) list \<Rightarrow> merge_state \<Rightarrow> bool" where
  "merge_inv feats xs st \<longleftrightarrow>
     frame_ok (m_dst st) = feats \<and>
     (if xs = [] then m_current st = None \<and> buffer (m_dst st) = [] \<and> episodes (m_dst st) = []
      else m_current st = Some (fst (last (runs xs))) \<and>
           episodes (m_dst st) @ [buffer (m_dst st)] = map snd (runs xs))"

subsection \<open>The loop keeps the grouping invariant\<close>

lemma merge_keyed_SomeE:
  assumes "merge_keyed item = Some (k, fr)"
  obtains s where "item = Inr s" "sample_episode s = Inr k" "prepare_frame s = Inr fr"
  using assms by (auto simp: merge_keyed_def split: sum.splits)

lemma merge_step_keep:
  assumes ok: "merge_ok feats item" and kd: "merge_keyed item = Some (k, fr)"
    and inv: "merge_inv feats xs st"
  shows "\<exists>st'. merge_step n i item st = Inr st' \<and> merge_inv feats (xs @ [(k, fr)]) st'"
proof -
  obtain s where it: "item = Inr s" and se: "sample_episode s = Inr k" and pf: "prepare_frame s = Inr fr"
    using kd by (rule merge_keyed_SomeE)
  have fok: "feats fr" using ok kd by (simp add: merge_ok_def)
  have fo: "frame_ok (m_dst st) = feats" using inv by (simp add: merge_inv_def)
  show ?thesis
  proof (cases "xs = []")
    case True
    with inv have "m_current st = None" "buffer (m_dst st) = []" "episodes (m_dst st) = []"
      by (simp_all add: merge_inv_def)
    with True it se pf fo fok show ?thesis
      by (simp add: merge_step_def merge_open_def merge_copy_def merge_inv_def)
  next
    case False
    let ?rs = "runs xs"
    from inv False have cu: "m_current st = Some (fst (last ?rs))"
      and eb: "episodes (m_dst st) @ [buffer (m_dst st)] = map snd ?rs"
      by (simp_all add: merge_inv_def)
    have eps: "episodes (m_dst st) = map snd (butlast ?rs)" and buf: "buffer (m_dst st) = snd (last ?rs)"
      and rne: "?rs \<noteq> []"
      using snoc_eq_map [OF eb] by simp_all
    show ?thesis
    proof (cases "fst (last ?rs) = k")
      case True
      with False it se pf fo fok cu eps buf show ?thesis
        by (simp add: merge_step_def merge_open_def merge_copy_def merge_inv_def runs_snoc map_butlast)
    next
      case neq: False
      have "buffer (m_dst st) \<noteq> []"
        using buf rne runs_nonempty [of "last ?rs" xs] by simp
      with False neq it se pf fo fok cu eb show ?thesis
        by (simp add: merge_step_def merge_open_def merge_copy_def merge_inv_def runs_snoc)
    qed
  qed
qed

lemma merge_transcribed_Nil [simp]: "merge_transcribed [] = []"
  by (simp add: merge_transcribed_def)

lemma merge_transcribed_Cons:
  "merge_transcribed (item # items) =
     (case merge_keyed item of None \<Rightarrow> [] | Some p \<Rightarrow> [p]) @ merge_transcribed items"
  by (simp add: merge_transcribed_def List.map_filter_simps split: option.split)

lemma merge_loop_inv:
  assumes "list_all (merge_ok feats) items" and "merge_inv feats xs st"
  shows "\<exists>st'. merge_loop n i items st = Inr st' \<and> merge_inv feats (xs @ merge_transcribed items) st'"
  using assms
proof (induction items arbitrary: i xs st)
  case Nil
  then show ?case by (simp add: merge_transcribed_def)
next
  case (Cons item items)
  from Cons.prems(1) obtain k fr where kd: "merge_keyed item = Some (k, fr)"
    by (auto simp: merge_ok_def split: option.splits)
  have ok1: "merge_ok feats item" and oks: "list_all (merge_ok feats) items"
    using Cons.prems(1) by simp_all
  obtain st' where "merge_step n i item st = Inr st'" and inv': "merge_inv feats (xs @ [(k, fr)]) st'"
    using merge_step_keep [OF ok1 kd Cons.prems(2)] by blast
  moreover obtain st'' where
    "merge_loop n (Suc i) items st' = Inr st''"
    "merge_inv feats ((xs @ [(k, fr)]) @ merge_transcribed items) st''"
    using Cons.IH [OF oks inv'] by blast
  ultimately show ?case using kd by (simp add: merge_transcribed_Cons)
qed

lemma merge_final_inv:
  assumes "merge_inv feats xs st" and "xs \<noteq> []"
  shows "\<exists>st'. merge_final st = Inr st' \<and> episodes (m_dst st') = map snd (runs xs) \<and>
           buffer (m_dst st') = []"
proof -
  from assms have eb: "episodes (m_dst st) @ [buffer (m_dst st)] = map snd (runs xs)"
    by (simp add: merge_inv_def)
  have "buffer (m_dst st) = snd (last (runs xs))" and "runs xs \<noteq> []"
    using snoc_eq_map [OF eb] by simp_all
  then have "buffer (m_dst st) \<noteq> []"
    using runs_nonempty [of "last (runs xs)" xs] by simp
  with eb show ?thesis by (simp add: merge_final_def)
qed

lemma merge_transcribed_length:
  "list_all (merge_ok feats) items \<Longrightarrow> length (merge_transcribed items) = length items"
  by (induction items) (auto simp: merge_transcribed_Cons merge_ok_def split: option.splits)


lemma virtual_merge_Nil_iff:
  "virtual_merge [xs, ys] = [] \<longleftrightarrow> xs = [] \<and> ys = []"
  by (simp add: virtual_merge_def)

subsection \<open>The dataset tag is invisible\<close>

lemma sample_episode_drop_key:
  "k \<noteq> ''episode_index'' \<Longrightarrow> sample_episode (s @ [(k, v)]) = sample_episode s"
  by (simp add: sample_episode_def map_of_append map_add_def split: option.split)

lemma merge_keyed_tag [simp]: "merge_keyed (tag_dataset j r) = merge_keyed r"
  by (simp add: merge_keyed_def tag_dataset_def sample_episode_drop_key prepare_frame_drop_key
      bookkeeping_keys_def split: sum.split)

lemma merge_ok_tag [simp]: "merge_ok feats (tag_dataset j r) = merge_ok feats r"
  by (simp add: merge_ok_def)

lemma merge_transcribed_append:
  "merge_transcribed (xs @ ys) = merge_transcribed xs @ merge_transcribed ys"
  by (induction xs) (simp_all add: merge_transcribed_Cons)

lemma merge_transcribed_tagged: "merge_transcribed (map (tag_dataset j) xs) = merge_transcribed xs"
  by (induction xs) (simp_all add: merge_transcribed_Cons)

lemma virtual_merge_two: "virtual_merge [a, b] = map (tag_dataset 0) a @ map (tag_dataset 1) b"
  by (simp add: virtual_merge_def)

lemma merge_transcribed_virtual:
  "merge_transcribed (virtual_merge [a, b]) = merge_transcribed (a @ b)"
  by (simp add: virtual_merge_two merge_transcribed_append merge_transcribed_tagged)

lemma merge_ok_virtual:
  "list_all (merge_ok feats) (virtual_merge [a, b]) = list_all (merge_ok feats) (a @ b)"
  by (simp add: virtual_merge_two list.pred_map comp_def)

lemma merge_loop_append:
  "merge_loop n i (xs @ ys) st =
     (case merge_loop n i xs st of Inl e \<Rightarrow> Inl e | Inr st' \<Rightarrow> merge_loop n (i + length xs) ys st')"
  by (induction xs arbitrary: i st) (simp_all split: sum.split)

text \<open>Conversely, an iteration that returns had a healthy item, and keeps the schema.\<close>

lemma merge_step_Inr:
  assumes "merge_step n i item st = Inr st'"
  shows "merge_ok (frame_ok (m_dst st)) item \<and> frame_ok (m_dst st') = frame_ok (m_dst st)"
  using assms
  by (auto simp: merge_step_def merge_open_def merge_copy_def merge_ok_def merge_keyed_def
      add_frame_def save_episode_def split: sum.splits if_splits)

lemma merge_loop_Inr:
  "merge_loop n i items st = Inr st' \<Longrightarrow> list_all (merge_ok (frame_ok (m_dst st))) items"
proof (induction items arbitrary: i st)
  case (Cons item items)
  then obtain st1 where s1: "merge_step n i item st = Inr st1" and l: "merge_loop n (Suc i) items st1 = Inr st'"
    by (auto split: sum.splits)
  with Cons.IH [OF l] merge_step_Inr [OF s1] show ?case by simp
qed simp

lemma merge_final_Inr: "merge_final st = Inr st' \<Longrightarrow> buffer (m_dst st) \<noteq> [] \<and> buffer (m_dst st') = []"
  by (auto simp: merge_final_def save_episode_def split: sum.splits if_splits)

text \<open>The result of \<^verbatim>\<open>main\<close> when every item of the concatenation is healthy and there is one.\<close>

lemma merge_main_result:
  assumes ok: "list_all (merge_ok (src_features ds1)) (virtual_merge [map snd (entries ds1), map snd (entries ds2)])"
    and ne: "virtual_merge [map snd (entries ds1), map snd (entries ds2)] \<noteq> []"
  shows "\<exists>st. merge_main ds1 ds2 = Inr st \<and> pushed (m_dst st) \<and> buffer (m_dst st) = [] \<and>
           episodes (m_dst st) =
             map snd (runs (merge_transcribed (virtual_merge [map snd (entries ds1), map snd (entries ds2)])))"
proof -
  define items where "items = virtual_merge [map snd (entries ds1), map snd (entries ds2)]"
  define st0 where "st0 = merge_init ds1 ds2"
  have "merge_inv (src_features ds1) [] st0" by (simp add: merge_inv_def st0_def merge_init_def)
  then obtain st where lp: "merge_loop (length items) 0 items st0 = Inr st"
    and inv: "merge_inv (src_features ds1) ([] @ merge_transcribed items) st"
    using merge_loop_inv ok unfolding items_def by blast
  have "length (merge_transcribed items) = length items"
    using ok unfolding items_def by (rule merge_transcribed_length)
  with ne have "merge_transcribed items \<noteq> []" unfolding items_def by auto
  with inv obtain st' where fin: "merge_final st = Inr st'"
    and eps: "episodes (m_dst st') = map snd (runs (merge_transcribed items))"
    and buf: "buffer (m_dst st') = []"
    using merge_final_inv by fastforce
  have "merge_main ds1 ds2 =
          Inr (st'\<lparr>m_dst := push_to_hub (m_dst st'),
                   m_log := m_log st' @ [MergeStep 5, MergeSuccess MERGED_NAME]\<rparr>)"
    using lp fin unfolding merge_main_def items_def st0_def Let_def by simp
  with eps buf show ?thesis unfolding items_def by simp
qed

subsection \<open>Correctness and failure of the merge\<close>

text \<open>
  Claim C2. Refinement of the transcription contract for the merge: when every sample of
  both datasets loads, has a one-element \<^verbatim>\<open>episode_index\<close> tensor and a frame accepted by
  the first dataset's features, and there is at least one sample, \<^verbatim>\<open>main\<close> finishes,
  uploads, and seals the maximal runs of equal episode index of the two datasets'
  samples concatenated; the \<^verbatim>\<open>dataset_index\<close> tag of the virtual merge leaves no trace
  in the frames.
\<close>

theorem merge_refines_runs:
  assumes "list_all (merge_ok (src_features ds1)) (map snd (entries ds1) @ map snd (entries ds2))"
    and "entries ds1 @ entries ds2 \<noteq> []"
  shows "\<exists>st. merge_main ds1 ds2 = Inr st \<and> pushed (m_dst st) \<and>
           episodes (m_dst st) = map snd (runs (merge_transcribed (map snd (entries ds1) @ map snd (entries ds2))))"
proof -
  have "virtual_merge [map snd (entries ds1), map snd (entries ds2)] \<noteq> []"
    using assms(2) by (simp add: virtual_merge_two)
  with assms(1) obtain st where "merge_main ds1 ds2 = Inr st" "pushed (m_dst st)"
    "episodes (m_dst st) = map snd (runs (merge_transcribed (map snd (entries ds1) @ map snd (entries ds2))))"
    using merge_main_result [of ds1 ds2] by (auto simp: merge_ok_virtual merge_transcribed_virtual)
  then show ?thesis by blast
qed

theorem merge_refines_runs_witness:
  "list_all (merge_ok (\<lambda>fr. True)) (map snd [ex_entry 0, ex_entry 0] @ map snd [ex_entry 1]) \<and>
   [ex_entry 0, ex_entry 0] @ [ex_entry 1] \<noteq> [] \<and>
   (\<exists>st. merge_main (ex_source True [ex_entry 0, ex_entry 0]) (ex_source True [ex_entry 1]) = Inr st \<and>
      pushed (m_dst st) \<and> episodes (m_dst st) = [[ex_frame 0, ex_frame 0], [ex_frame 1]])"
proof -
  have k: "merge_keyed (Inr (ex_sample e)) = Some (e, ex_frame e)" for e
    by (simp add: merge_keyed_def sample_episode_def ex_sample_def prepare_frame_def add_item_def
        bookkeeping_keys_def frame_value_def ex_frame_def)
  show ?thesis
    using merge_refines_runs [of "ex_source True [ex_entry 0, ex_entry 0]" "ex_source True [ex_entry 1]"]
    by (simp add: merge_ok_def merge_transcribed_Cons k ex_entry_def)
qed

text \<open>
  Claim C16. The converse of the merge's refinement, with the error paths it
  closes: \<^verbatim>\<open>main\<close> finishes only when the concatenation holds at least one sample and
  every sample loads, has a one-element \<^verbatim>\<open>episode_index\<close> and a frame the output's
  schema accepts. With no try (line 33) any unhealthy sample raises, and since the
  final \<^verbatim>\<open>save_episode\<close> (line 60) is not guarded by an open episode, merging datasets
  with no sample at all raises on the empty buffer instead of finishing.
\<close>

theorem merge_finishes_only_healthy:
  assumes "merge_main ds1 ds2 = Inr st"
  shows "entries ds1 @ entries ds2 \<noteq> [] \<and>
         list_all (merge_ok (src_features ds1)) (map snd (entries ds1 @ entries ds2)) \<and>
         pushed (m_dst st) \<and> buffer (m_dst st) = []"
proof -
  let ?items = "virtual_merge [map snd (entries ds1), map snd (entries ds2)]"
  obtain s1 s2 where l: "merge_loop (length ?items) 0 ?items (merge_init ds1 ds2) = Inr s1"
    and f: "merge_final s1 = Inr s2"
    and st: "st = s2\<lparr>m_dst := push_to_hub (m_dst s2), m_log := m_log s2 @ [MergeStep 5, MergeSuccess MERGED_NAME]\<rparr>"
    using assms by (auto simp: merge_main_def Let_def split: sum.splits)
  have ok: "list_all (merge_ok (src_features ds1)) ?items"
    using merge_loop_Inr [OF l] by (simp add: merge_init_def)
  have "buffer (m_dst s1) \<noteq> []" and b2: "buffer (m_dst s2) = []"
    using merge_final_Inr [OF f] by simp_all
  then have "?items \<noteq> []"
    using l by (auto simp: merge_init_def)
  with ok b2 st show ?thesis
    by (simp add: merge_ok_virtual virtual_merge_Nil_iff)
qed

theorem merge_finishes_only_healthy_witness:
  "\<exists>st. merge_main (ex_source True [ex_entry 0, ex_entry 0]) (ex_source True [ex_entry 1]) = Inr st \<and>
     entries (ex_source True [ex_entry 0, ex_entry 0]) @ entries (ex_source True [ex_entry 1]) \<noteq> [] \<and>
     pushed (m_dst st)"
proof -
  have ok: "list_all (merge_ok (src_features (ex_source True [ex_entry 0, ex_entry 0])))
      (virtual_merge [map snd (entries (ex_source True [ex_entry 0, ex_entry 0])),
                      map snd (entries (ex_source True [ex_entry 1]))])"
    by (simp add: virtual_merge_two merge_ok_def merge_keyed_def tag_dataset_def ex_entry_def ex_sample_def
        sample_episode_def prepare_frame_def add_item_def bookkeeping_keys_def frame_value_def)
  obtain st where "merge_main (ex_source True [ex_entry 0, ex_entry 0]) (ex_source True [ex_entry 1]) = Inr st"
    using merge_main_result [OF ok] by (auto simp: virtual_merge_two)
  with merge_finishes_only_healthy [OF this] show ?thesis by auto
qed

text \<open>
  Claim C15. The merge has no \<^verbatim>\<open>try\<close>: the first sample of the concatenation that fails to
  load ends the script with its exception, whatever follows, and nothing is uploaded.
\<close>

theorem merge_failure_aborts:
  assumes "virtual_merge [map snd (entries ds1), map snd (entries ds2)] = pre @ Inl e # post"
    and "list_all (merge_ok (src_features ds1)) pre"
  shows "merge_main ds1 ds2 = Inl e"
proof -
  define st0 where "st0 = merge_init ds1 ds2"
  have "merge_inv (src_features ds1) [] st0" by (simp add: merge_inv_def st0_def merge_init_def)
  then obtain st where "merge_loop (length (pre @ Inl e # post)) 0 pre st0 = Inr st"
    using merge_loop_inv assms(2) by blast
  then have "merge_loop (length (pre @ Inl e # post)) 0 (pre @ Inl e # post) st0 = Inl e"
    by (simp add: merge_loop_append merge_step_def)
  then show ?thesis
    using assms(1) unfolding merge_main_def st0_def Let_def by simp
qed

theorem merge_failure_aborts_witness:
  "virtual_merge [map snd [ex_entry 0], map snd [ex_broken 0, ex_entry 1]] =
     [tag_dataset 0 (Inr (ex_sample 0))] @ Inl (LibraryError ''corrupted video frame'') # [tag_dataset 1 (Inr (ex_sample 1))] \<and>
   list_all (merge_ok (\<lambda>fr. True)) [tag_dataset 0 (Inr (ex_sample 0))] \<and>
   merge_main (ex_source True [ex_entry 0]) (ex_source True [ex_broken 0, ex_entry 1]) =
     Inl (LibraryError ''corrupted video frame'')"
proof -
  have v: "virtual_merge [map snd [ex_entry 0], map snd [ex_broken 0, ex_entry 1]] =
     [tag_dataset 0 (Inr (ex_sample 0))] @ Inl (LibraryError ''corrupted video frame'') # [tag_dataset 1 (Inr (ex_sample 1))]"
    by (simp add: virtual_merge_two ex_entry_def ex_broken_def tag_dataset_def)
  have "merge_ok (\<lambda>fr. True) (Inr (ex_sample 0))"
    by (simp add: merge_ok_def merge_keyed_def sample_episode_def ex_sample_def prepare_frame_def
        add_item_def bookkeeping_keys_def frame_value_def)
  then have ok: "list_all (merge_ok (\<lambda>fr. True)) [tag_dataset 0 (Inr (ex_sample 0))]"
    by simp
  show ?thesis
    using merge_failure_aborts [of "ex_source True [ex_entry 0]" "ex_source True [ex_broken 0, ex_entry 1]"
        "[tag_dataset 0 (Inr (ex_sample 0))]" "LibraryError ''corrupted video frame''"
        "[tag_dataset 1 (Inr (ex_sample 1))]"]
      v ok by simp
qed

text \<open>
  Claim C17. Episode boundaries are detected by a change of \<^verbatim>\<open>episode_index\<close>, and the
  virtual merge does not renumber episodes: the merged output has as many episodes as
  the two datasets together, one fewer when the last episode index of the first dataset
  equals the first of the second, whose two episodes are then fused into one.
\<close>

theorem merge_junction_episode_count:
  assumes "list_all (merge_ok (src_features ds1)) (map snd (entries ds1) @ map snd (entries ds2))"
    and "entries ds1 \<noteq> []" and "entries ds2 \<noteq> []"
  defines "T1 \<equiv> merge_transcribed (map snd (entries ds1))"
    and "T2 \<equiv> merge_transcribed (map snd (entries ds2))"
  shows "\<exists>st. merge_main ds1 ds2 = Inr st \<and>
           length (episodes (m_dst st)) =
             length (runs T1) + length (runs T2) - (if fst (last T1) = fst (hd T2) then 1 else 0)"
proof -
  have "virtual_merge [map snd (entries ds1), map snd (entries ds2)] \<noteq> []"
    using assms(2) by (simp add: virtual_merge_two)
  then obtain st where r: "merge_main ds1 ds2 = Inr st"
    and eps: "episodes (m_dst st) = map snd (runs (T1 @ T2))"
    using merge_main_result [of ds1 ds2] assms(1)
    by (auto simp: merge_ok_virtual merge_transcribed_virtual merge_transcribed_append T1_def T2_def)
  have "length T1 = length (entries ds1)" and "length T2 = length (entries ds2)"
    using assms(1) merge_transcribed_length [of "src_features ds1"] unfolding T1_def T2_def
    by auto
  then have "T1 \<noteq> []" "T2 \<noteq> []" using assms(2,3) by auto
  with r eps show ?thesis by (simp add: length_runs_append)
qed

theorem merge_junction_episode_count_witness:
  "list_all (merge_ok (\<lambda>fr. True)) (map snd [ex_entry 0] @ map snd [ex_entry 0]) \<and>
   [ex_entry 0] \<noteq> [] \<and>
   (\<exists>st. merge_main (ex_source True [ex_entry 0]) (ex_source True [ex_entry 0]) = Inr st \<and>
      length (episodes (m_dst st)) = 1)"
proof -
  have k: "merge_keyed (Inr (ex_sample e)) = Some (e, ex_frame e)" for e
    by (simp add: merge_keyed_def sample_episode_def ex_sample_def prepare_frame_def add_item_def
        bookkeeping_keys_def frame_value_def ex_frame_def)
  show ?thesis
    using merge_junction_episode_count [of "ex_source True [ex_entry 0]" "ex_source True [ex_entry 0]"]
    by (simp add: merge_ok_def merge_transcribed_Cons k ex_entry_def)
qed

end
