(* ===== verification/TestDataset.thy ===== *)
theory TestDataset
  imports CleanDataset "HOL-Library.List_Lexorder" "HOL-Library.Char_ord"
begin

text \<open>
  \<^verbatim>\<open>src/own_scripts/testdataset.py\<close>: \<^verbatim>\<open>test_samples\<close> loads every sample of a dataset
  (or the first \<^verbatim>\<open>max_samples\<close>) inside a \<^verbatim>\<open>try\<close>, collects the indices that fail and
  returns the first; \<^verbatim>\<open>check_episodes\<close> collects the \<^verbatim>\<open>episode_index\<close> of the first ten
  parquet rows in a Python \<^verbatim>\<open>set\<close> and prints them sorted. The dataset is the
  \<open>source\<close> of CleanDataset (its rows and decoded samples, each a value or the exception
  it raises); what the scripts print is a list of messages. Loading the dataset itself
  (lines 10 and 55) is outside any \<^verbatim>\<open>try\<close> and is the given source.
\<close>

datatype td_msg =
    Testing string
  | HasSamples nat
  | TestingAll nat
  | SampleOk nat
  | SampleFailed nat exc
  | SampleMeta nat val val
  | TestingComplete
  | TotalCorrupted nat
  | CorruptedIndices "nat list"
  | FirstCorrupted nat
  | NoCorrupted
  | DatasetInfo
  | TotalSamples nat
  | NumEpisodes nat
  | IndicesFound "val list"
  | NoEpisodeInfo exc
  | Separator

record ts_state =
  corrupted :: "nat list"
  ts_log :: "td_msg list"

text \<open>\<^verbatim>\<open>row.get(key, default)\<close> on a parquet row (a dict).\<close>

definition row_get :: "row \<Rightarrow> string \<Rightarrow> val \<Rightarrow> val" where
  "row_get r k d = (case map_of r k of Some v \<Rightarrow> v | None \<Rightarrow> d)"

subsection \<open>\<^verbatim>\<open>test_samples\<close>\<close>

text \<open>Line 16: \<^verbatim>\<open>range\<close> of a negative \<^verbatim>\<open>min(max_samples, total_samples)\<close> is empty.\<close>

definition test_count :: "nat \<Rightarrow> int option \<Rightarrow> nat" where
  "test_count n_total mx = (case mx of None \<Rightarrow> n_total | Some m \<Rightarrow> nat (min m (int n_total)))"

text \<open>
  Lines 34--40: the metadata probe of a failed index, itself guarded by a bare
  \<^verbatim>\<open>except\<close>: a row that fails to load prints nothing.
\<close>

definition probe_meta :: "bool \<Rightarrow> nat \<Rightarrow> entry \<Rightarrow> td_msg list" where
  "probe_meta hf i ent =
     (if hf then (case fst ent of
                    Inr r \<Rightarrow> [SampleMeta i (row_get r ''episode_index'' (VStr ''N/A''))
                                        (row_get r ''frame_index'' (VStr ''N/A''))]
                  | Inl e \<Rightarrow> [])
      else [])"

text \<open>Lines 24--40, one iteration: load \<^verbatim>\<open>dataset[i]\<close>; on failure record and probe.\<close>

definition ts_step :: "bool \<Rightarrow> nat \<Rightarrow> entry \<Rightarrow> ts_state \<Rightarrow> ts_state" where
  "ts_step hf i ent st =
     (case snd ent of
        Inr s \<Rightarrow> st\<lparr>ts_log := ts_log st @ (if i mod 100 = 0 then [SampleOk i] else [])\<rparr>
      | Inl e \<Rightarrow> st\<lparr>corrupted := corrupted st @ [i],
                    ts_log := ts_log st @ SampleFailed i e # probe_meta hf i ent\<rparr>)"

text \<open>Line 23: \<^verbatim>\<open>for i in range(test_samples)\<close>, over the entries it reaches.\<close>

fun ts_loop :: "bool \<Rightarrow> nat \<Rightarrow> entry list \<Rightarrow> ts_state \<Rightarrow> ts_state" where
  "ts_loop hf i [] st = st"
| "ts_loop hf i (ent # ents) st = ts_loop hf (Suc i) ents (ts_step hf i ent st)"

text \<open>Lines 5--50: the return value and what is printed.\<close>

definition test_samples :: "source \<Rightarrow> int option \<Rightarrow> nat option \<times> td_msg list" where
  "test_samples src mx =
     (let n = length (entries src);
          t = test_count n mx;
          st = ts_loop (has_hf_dataset src) 0 (take t (entries src))
                 \<lparr>corrupted = [], ts_log = [Testing (src_repo src), HasSamples n, TestingAll t]\<rparr>
      in case corrupted st of
           [] \<Rightarrow> (None, ts_log st @ [TestingComplete, TotalCorrupted 0, NoCorrupted])
         | c # cs \<Rightarrow> (Some c, ts_log st @ [TestingComplete, TotalCorrupted (length (c # cs)),
                                           CorruptedIndices (c # cs), FirstCorrupted c]))"

subsection \<open>\<^verbatim>\<open>check_episodes\<close>\<close>

text \<open>
  Line 70: \<^verbatim>\<open>episodes.add(v)\<close>. A torch tensor hashes by identity and every row read
  builds a new one, so a tensor is always added; a numpy array is unhashable; strings
  and ints are added once.
\<close>

definition py_set_add :: "val \<Rightarrow> val list \<Rightarrow> exc + val list" where
  "py_set_add v xs =
     (case v of
        VTensor sh d \<Rightarrow> Inr (xs @ [v])
      | VArray sh d \<Rightarrow> Inl (TypeError ''unhashable type: numpy.ndarray'')
      | _ \<Rightarrow> Inr (if v \<in> set xs then xs else xs @ [v]))"

fun is_str :: "val \<Rightarrow> bool" where
  "is_str (VStr s) = True"
| "is_str _ = False"

fun str_key :: "val \<Rightarrow> string" where
  "str_key (VStr s) = s"
| "str_key _ = []"

definition numeric :: "val \<Rightarrow> bool" where
  "numeric v \<longleftrightarrow> \<not> is_str v \<and> scalar_of v \<noteq> None"

text \<open>
  Line 71: \<^verbatim>\<open>sorted(episodes)\<close>. One-element tensors and ints compare by value,
  strings lexicographically; a multi-element tensor makes \<^verbatim>\<open><\<close> ambiguous and a string
  does not compare with a number. (When both kinds of failure are present, which one
  Python meets first depends on its sort's comparison order; the model reports the
  \<open>TypeError\<close>.) Python's sort is stable, as \<open>sort_key\<close> is.
\<close>

definition py_sorted :: "val list \<Rightarrow> exc + val list" where
  "py_sorted xs =
     (if length xs \<le> 1 then Inr xs
      else if list_all numeric xs then Inr (sort_key (\<lambda>v. the (scalar_of v)) xs)
      else if list_all is_str xs then Inr (sort_key str_key xs)
      else if \<not> list_ex is_str xs then Inl ambiguous
      else Inl (TypeError ''< not supported between str and Tensor''))"

text \<open>Lines 68--70: the rows probed, stopping at the first exception.\<close>

fun ce_loop :: "entry list \<Rightarrow> val list \<Rightarrow> exc + val list" where
  "ce_loop [] acc = Inr acc"
| "ce_loop (ent # ents) acc =
     (case fst ent of
        Inl e \<Rightarrow> Inl e
      | Inr r \<Rightarrow> (case py_set_add (row_get r ''episode_index'' (VStr ''unknown'')) acc of
                   Inl e \<Rightarrow> Inl e
                 | Inr acc' \<Rightarrow> ce_loop ents acc'))"

text \<open>
  Lines 52--73; \<^verbatim>\<open>dataset.num_episodes\<close> is the source's metadata, printed as is.
\<close>

definition check_episodes :: "source \<Rightarrow> td_msg list" where
  "check_episodes src =
     [DatasetInfo, TotalSamples (length (entries src)), NumEpisodes (src_num_episodes src)] @
     (if has_hf_dataset src
      then (case ce_loop (take (min 10 (length (entries src))) (entries src)) [] of
              Inl e \<Rightarrow> [NoEpisodeInfo e]
            | Inr eps \<Rightarrow> (case py_sorted eps of
                            Inl e \<Rightarrow> [NoEpisodeInfo e]
                          | Inr vs \<Rightarrow> [IndicesFound vs]))
      else [])"

text \<open>
  Lines 75--84, the \<^verbatim>\<open>__main__\<close> block: \<^verbatim>\<open>check_episodes\<close>, a separator line, then
  \<^verbatim>\<open>test_samples\<close> over the whole dataset; both load the same repository.
\<close>

definition testdataset_main :: "source \<Rightarrow> td_msg list \<times> nat option" where
  "testdataset_main src =
     (let r = test_samples src None in (check_episodes src @ [Separator] @ snd r, fst r))"

text \<open>A row whose \<^verbatim>\<open>episode_index\<close> is a 0-dimensional tensor, as lerobot returns it.\<close>

definition row_tensor_index :: "entry \<Rightarrow> bool" where
  "row_tensor_index ent =
     (case fst ent of
        Inr r \<Rightarrow> (case map_of r ''episode_index'' of Some (VTensor [] [k]) \<Rightarrow> True | _ \<Rightarrow> False)
      | Inl e \<Rightarrow> False)"

subsection \<open>The scan collects exactly the failing indices\<close>

lemma find_filter_hd: "find P xs = (case filter P xs of [] \<Rightarrow> None | x # _ \<Rightarrow> Some x)"
  by (induction xs) auto

lemma ts_loop_corrupted:
  "corrupted (ts_loop hf i ents st) =
     corrupted st @ filter (\<lambda>j. isl (snd (ents ! (j - i)))) [i..<i + length ents]"
proof (induction ents arbitrary: i st)
  case (Cons ent ents)
  then show ?case
    by (cases "snd ent") (simp_all add: ts_step_def filter_upt_Cons_shift [where P = "\<lambda>y. isl (snd y)"] del: upt_Suc)
qed simp

lemma test_count_le: "test_count n mx \<le> n"
  by (simp add: test_count_def nat_le_iff split: option.split)

text \<open>The failing indices below the bound, in increasing order.\<close>

lemma test_samples_corrupted:
  fixes src :: source and mx :: "int option"
  defines "E \<equiv> entries src" and "t \<equiv> test_count (length (entries src)) mx"
  shows "corrupted (ts_loop (has_hf_dataset src) 0 (take t E) st) =
           corrupted st @ filter (\<lambda>i. isl (snd (E ! i))) [0..<t]"
proof -
  have lt: "length (take t E) = t" using test_count_le [of "length E" mx] by (simp add: E_def t_def)
  have "filter (\<lambda>j. isl (snd (take t E ! (j - 0)))) [0..<t] = filter (\<lambda>i. isl (snd (E ! i))) [0..<t]"
    by (rule filter_cong) simp_all
  then show ?thesis using ts_loop_corrupted [of "has_hf_dataset src" 0 "take t E" st] lt by simp
qed

lemma ce_loop_tensors:
  "list_all row_tensor_index ents \<Longrightarrow>
   ce_loop ents acc = Inr (acc @ map (\<lambda>ent. row_get (projr (fst ent)) ''episode_index'' (VStr ''unknown'')) ents)"
proof (induction ents arbitrary: acc)
  case (Cons ent ents)
  then obtain r k where "fst ent = Inr r" "map_of r ''episode_index'' = Some (VTensor [] [k])"
    by (auto simp: row_tensor_index_def split: sum.splits option.splits val.splits list.splits)
  with Cons show ?case by (simp add: py_set_add_def row_get_def)
qed simp

lemma row_tensor_numeric:
  "row_tensor_index ent \<Longrightarrow> numeric (row_get (projr (fst ent)) ''episode_index'' (VStr ''unknown''))"
  by (auto simp: row_tensor_index_def row_get_def numeric_def split: sum.splits option.splits val.splits list.splits)

lemma py_sorted_numeric:
  "list_all numeric xs \<Longrightarrow> py_sorted xs = Inr (sort_key (\<lambda>v. the (scalar_of v)) xs)"
proof (cases xs)
  case (Cons x ys)
  assume "list_all numeric xs"
  with Cons show ?thesis by (cases ys) (simp_all add: py_sorted_def)
qed (simp add: py_sorted_def)

lemma test_samples_parts:
  fixes src :: source and mx :: "int option"
  defines "F \<equiv> filter (\<lambda>i. isl (snd (entries src ! i))) [0..<test_count (length (entries src)) mx]"
  shows "\<exists>pre. test_samples src mx =
           (case F of [] \<Rightarrow> (None, pre @ [TestingComplete, TotalCorrupted 0, NoCorrupted])
            | c # cs \<Rightarrow> (Some c, pre @ [TestingComplete, TotalCorrupted (length F), CorruptedIndices F,
                                     FirstCorrupted c]))"
proof -
  let ?st0 = "\<lparr>corrupted = [], ts_log = [Testing (src_repo src), HasSamples (length (entries src)),
                 TestingAll (test_count (length (entries src)) mx)]\<rparr>"
  have "corrupted (ts_loop (has_hf_dataset src) 0 (take (test_count (length (entries src)) mx) (entries src)) ?st0) = F"
    using test_samples_corrupted [of src mx ?st0] by (simp add: F_def)
  then show ?thesis by (simp add: test_samples_def Let_def split: list.split)
qed

text \<open>
  Claim C7. \<^verbatim>\<open>test_samples\<close> returns the least index below the bound
  (\<^verbatim>\<open>max_samples\<close> clipped to the dataset) whose sample fails to load, and \<^verbatim>\<open>None\<close> when
  every sample below the bound loads: a failure never stops the scan early.
\<close>

theorem test_samples_first_failure:
  "fst (test_samples src mx) =
     find (\<lambda>i. isl (snd (entries src ! i))) [0..<test_count (length (entries src)) mx]"
  using test_samples_parts [of src mx] by (auto simp: find_filter_hd split: list.splits)

theorem test_samples_first_failure_witness:
  "fst (test_samples (ex_source True [ex_entry 0, ex_broken 0, ex_entry 1, ex_broken 1]) None) = Some 1 \<and>
   fst (test_samples (ex_source True [ex_entry 0, ex_broken 0, ex_entry 1, ex_broken 1]) (Some 1)) = None"
  using test_samples_first_failure [of "ex_source True [ex_entry 0, ex_broken 0, ex_entry 1, ex_broken 1]" None]
    test_samples_first_failure [of "ex_source True [ex_entry 0, ex_broken 0, ex_entry 1, ex_broken 1]" "Some 1"]
  by (simp add: test_count_def ex_entry_def upt_rec)

text \<open>
  Claim C28. The report ends with the number of failing indices, then either the
  complete list of failing indices in increasing order and the first of them, or the
  message that none was found.
\<close>

theorem test_samples_summary:
  fixes src :: source and mx :: "int option"
  defines "F \<equiv> filter (\<lambda>i. isl (snd (entries src ! i))) [0..<test_count (length (entries src)) mx]"
  shows "\<exists>pre. snd (test_samples src mx) =
           pre @ [TestingComplete, TotalCorrupted (length F)] @
           (if F = [] then [NoCorrupted] else [CorruptedIndices F, FirstCorrupted (hd F)])"
proof -
  obtain pre where "test_samples src mx =
           (case F of [] \<Rightarrow> (None, pre @ [TestingComplete, TotalCorrupted 0, NoCorrupted])
            | c # cs \<Rightarrow> (Some c, pre @ [TestingComplete, TotalCorrupted (length F), CorruptedIndices F,
                                     FirstCorrupted c]))"
    using test_samples_parts [of src mx] unfolding F_def by blast
  then show ?thesis by (cases F) auto
qed

theorem test_samples_summary_witness:
  "\<exists>pre. snd (test_samples (ex_source True [ex_entry 0, ex_broken 0, ex_entry 1, ex_broken 1]) None) =
     pre @ [TestingComplete, TotalCorrupted 2, CorruptedIndices [1, 3], FirstCorrupted 1]"
  using test_samples_summary [of "ex_source True [ex_entry 0, ex_broken 0, ex_entry 1, ex_broken 1]" None]
  by (simp add: test_count_def ex_entry_def upt_rec numeral_2_eq_2 numeral_3_eq_3)

text \<open>
  Claim C29. Only the samples below the bound are loaded: replacing every sample
  from index \<open>test_count\<close> on by anything of the same number leaves the result and
  the report unchanged.
\<close>

theorem test_samples_bounded:
  assumes "length ys = length (drop (test_count (length (entries src)) mx) (entries src))"
  shows "test_samples (src\<lparr>entries := take (test_count (length (entries src)) mx) (entries src) @ ys\<rparr>) mx =
           test_samples src mx"
proof -
  have le: "test_count (length (entries src)) mx \<le> length (entries src)" by (rule test_count_le)
  have "take (test_count (length (entries src)) mx)
          (take (test_count (length (entries src)) mx) (entries src) @ ys) =
        take (test_count (length (entries src)) mx) (entries src)"
    using le by simp
  with assms le show ?thesis by (simp add: test_samples_def Let_def del: take_append cong: list.case_cong)
qed

theorem test_samples_bounded_witness:
  "length [ex_broken 5, ex_broken 6] =
     length (drop (test_count (length [ex_entry 0, ex_broken 0, ex_entry 1]) (Some 1)) [ex_entry 0, ex_broken 0, ex_entry 1]) \<and>
   test_samples (ex_source True [ex_entry 0, ex_broken 5, ex_broken 6]) (Some 1) =
     test_samples (ex_source True [ex_entry 0, ex_broken 0, ex_entry 1]) (Some 1)"
  using test_samples_bounded [of "[ex_broken 5, ex_broken 6]" "ex_source True [ex_entry 0, ex_broken 0, ex_entry 1]" "Some 1"]
  by (simp add: test_count_def ex_source_def test_samples_def)

text \<open>
  Claim C30. When the first ten rows carry 0-dimensional tensor episode indices,
  \<^verbatim>\<open>check_episodes\<close> prints one entry per row read, sorted by value: torch tensors hash
  by identity, so the \<^verbatim>\<open>set\<close> of line 67 keeps every duplicate and the printed list is
  not the set of episode indices.
\<close>

theorem check_episodes_tensor_rows:
  assumes "has_hf_dataset src"
    and "list_all row_tensor_index (take (min 10 (length (entries src))) (entries src))"
  shows "check_episodes src =
           [DatasetInfo, TotalSamples (length (entries src)), NumEpisodes (src_num_episodes src),
            IndicesFound (sort_key (\<lambda>v. the (scalar_of v))
              (map (\<lambda>ent. row_get (projr (fst ent)) ''episode_index'' (VStr ''unknown''))
                 (take (min 10 (length (entries src))) (entries src))))]"
proof -
  let ?vs = "map (\<lambda>ent. row_get (projr (fst ent)) ''episode_index'' (VStr ''unknown''))
               (take (min 10 (length (entries src))) (entries src))"
  have "list_all numeric ?vs"
    using assms(2) by (simp add: list.pred_map list_all_iff row_tensor_numeric)
  then show ?thesis
    using assms by (simp add: check_episodes_def ce_loop_tensors py_sorted_numeric)
qed

theorem check_episodes_tensor_rows_witness:
  "has_hf_dataset (ex_source True [ex_entry 0, ex_entry 0, ex_entry 1]) \<and>
   list_all row_tensor_index [ex_entry 0, ex_entry 0, ex_entry 1] \<and>
   check_episodes (ex_source True [ex_entry 0, ex_entry 0, ex_entry 1]) =
     [DatasetInfo, TotalSamples 3, NumEpisodes 2,
      IndicesFound [VTensor [] [0], VTensor [] [0], VTensor [] [1]]]"
  using check_episodes_tensor_rows [of "ex_source True [ex_entry 0, ex_entry 0, ex_entry 1]"]
  by (simp add: row_tensor_index_def ex_entry_def row_get_def)

end
