(* ===== verification/Inference.thy ===== *)
theory Inference
  imports Sink
begin

text \<open>
  \<^verbatim>\<open>src/own_scripts/inference.py\<close>, a module-level script: build the robot, load the
  policy, create the evaluation dataset, rename the dataset statistics for the
  preprocessor, connect the robot, record \<^verbatim>\<open>NUM_EPISODES\<close> episodes with lerobot's
  \<^verbatim>\<open>record_loop\<close>, sealing each, then disconnect and publish. There is no \<^verbatim>\<open>try\<close>: the
  first exception ends the script, leaving behind what was done so far, so the script
  is an outcome (Prelude). The external services (camera and robot drivers, policy,
  feature derivation, keyboard listener, visualisation) are inputs: the feature schema,
  the statistics of the created dataset and the frames \<^verbatim>\<open>record_loop\<close> produces in each
  episode. The module refers to two names it never binds: \<^verbatim>\<open>SmolVLA\<close> (line 35, only
  \<^verbatim>\<open>ACTPolicy\<close> is imported) and \<^verbatim>\<open>HF_DATASET_ID\<close> (line 44, its assignment on line 18
  is a comment); \<open>bindings\<close> records whether each is bound.
\<close>

subsection \<open>Renaming the statistics (lines 52--59)\<close>

text \<open>
  Python's \<^verbatim>\<open>s.replace(old, new)\<close>: every non-overlapping occurrence of \<open>old\<close>, left to
  right; an empty \<open>old\<close> inserts \<open>new\<close> around every character.
\<close>

function py_replace :: "string \<Rightarrow> string \<Rightarrow> string \<Rightarrow> string" where
  "py_replace old new s =
     (if old = [] then new @ concat (map (\<lambda>c. c # new) s)
      else if s = [] then []
      else if prefix old s then new @ py_replace old new (drop (length old) s)
      else hd s # py_replace old new (tl s))"
  by pat_completeness auto
termination
  by (relation "measure (\<lambda>(old, new, s). length s)") auto

declare py_replace.simps [simp del]

type_synonym stat = "(string \<times> val) list"

definition image_prefix :: string where
  "image_prefix = ''observation.images.''"

text \<open>Lines 55--59: the key under which a statistic is stored.\<close>

definition short_key :: "string \<Rightarrow> string" where
  "short_key k = (if prefix image_prefix k then py_replace image_prefix [] k else k)"

text \<open>Lines 53--59: \<^verbatim>\<open>mapped_stats[short_key] = ...\<close> in the order of the stats dict.\<close>

definition mapped_stats :: "(string \<times> 'v) list \<Rightarrow> (string \<times> 'v) list" where
  "mapped_stats stats = fold (\<lambda>(k, v) m. AList.update (short_key k) v m) stats []"

subsection \<open>The script\<close>

record bindings =
  smolvla_bound :: bool
  hf_dataset_id :: "string option"

text \<open>The module as written: neither name is bound.\<close>

definition file_bindings :: bindings where
  "file_bindings = \<lparr>smolvla_bound = False, hf_dataset_id = None\<rparr>"

definition NUM_EPISODES :: nat where "NUM_EPISODES = 5"

definition FPS :: nat where "FPS = 30"

datatype inf_msg = RecordingEvalEpisode nat nat

record inf_state =
  robot_connected :: bool
  inf_dst :: "sink option"
  preprocessor_stats :: "(string \<times> stat) list"
  said :: "inf_msg list"

text \<open>
  lerobot's \<^verbatim>\<open>record_loop\<close> with a dataset (external, from the specification): it calls
  \<^verbatim>\<open>dataset.add_frame\<close> on each frame it records; an exception propagates, the frames
  added before it staying in the dataset's buffer.
\<close>

fun record_loop :: "frame list \<Rightarrow> sink \<Rightarrow> sink outcome" where
  "record_loop [] d = ok d"
| "record_loop (fr # frs) d = olift (add_frame fr d) d (record_loop frs)"

text \<open>Lines 75--90: announce, record, seal, for each episode index.\<close>

fun record_episodes :: "(nat \<Rightarrow> frame list) \<Rightarrow> nat list \<Rightarrow> inf_state \<Rightarrow> inf_state outcome" where
  "record_episodes rec [] st = ok st"
| "record_episodes rec (i # is) st =
     (let st' = st\<lparr>said := said st @ [RecordingEvalEpisode (Suc i) NUM_EPISODES]\<rparr>
      in case inf_dst st' of
           None \<Rightarrow> raise_at st' (AttributeError ''save_episode'')
         | Some d \<Rightarrow>
             (case record_loop (rec i) d of
                (d', Some e) \<Rightarrow> raise_at (st'\<lparr>inf_dst := Some d'\<rparr>) e
              | (d', None) \<Rightarrow>
                  olift (save_episode d') (st'\<lparr>inf_dst := Some d'\<rparr>) (\<lambda>d''.
                    record_episodes rec is (st'\<lparr>inf_dst := Some d''\<rparr>))))"

text \<open>
  Lines 13--94. \<open>feats\<close> is \<^verbatim>\<open>dataset_features\<close> (lines 38--40), \<open>stats\<close> the created
  dataset's \<^verbatim>\<open>meta.stats\<close>, \<open>rec i\<close> the frames recorded in episode \<open>i\<close>.
\<close>

definition inference_main ::
  "bindings \<Rightarrow> features \<Rightarrow> (string \<times> stat) list \<Rightarrow> (nat \<Rightarrow> frame list) \<Rightarrow> inf_state outcome" where
  "inference_main b feats stats rec =
     (let st0 = \<lparr>robot_connected = False, inf_dst = None, preprocessor_stats = [], said = []\<rparr>
      in if \<not> smolvla_bound b then raise_at st0 (NameError ''SmolVLA'')
         else case hf_dataset_id b of
                None \<Rightarrow> raise_at st0 (NameError ''HF_DATASET_ID'')
              | Some repo \<Rightarrow>
                  obind (record_episodes rec [0..<NUM_EPISODES]
                           (st0\<lparr>inf_dst := Some (create repo FPS feats),
                                preprocessor_stats := mapped_stats stats,
                                robot_connected := True\<rparr>))
                    (\<lambda>st. ok (st\<lparr>robot_connected := False,
                                 inf_dst := map_option push_to_hub (inf_dst st)\<rparr>)))"

text \<open>The \<^verbatim>\<open>log_say\<close> announcements of the episodes \<open>is\<close>, in order (line 76).\<close>

definition announced :: "nat list \<Rightarrow> inf_msg list" where
  "announced is = map (\<lambda>i. RecordingEvalEpisode (Suc i) NUM_EPISODES) is"

subsection \<open>The statistics the preprocessor receives\<close>

lemma py_replace_absent:
  "old \<noteq> [] \<Longrightarrow> \<not> sublist old s \<Longrightarrow> py_replace old new s = s"
proof (induction old new s rule: py_replace.induct)
  case (1 old new s)
  show ?case
  proof (cases s)
    case (Cons c cs)
    with "1.prems" have "\<not> prefix old s" and "\<not> sublist old cs"
      by (auto simp: sublist_Cons_right)
    with "1.IH" "1.prems"(1) Cons show ?thesis by (subst py_replace.simps) simp
  next
    case Nil
    with "1.prems"(1) show ?thesis by (subst py_replace.simps) simp
  qed
qed

lemma py_replace_prefix:
  "old \<noteq> [] \<Longrightarrow> py_replace old new (old @ s) = new @ py_replace old new s"
  by (subst py_replace.simps) simp

lemma fold_update_map_of:
  "map_of (fold (\<lambda>(k, v) m. AList.update (f k) v m) xs m) =
     map_of (rev (map (\<lambda>(k, v). (f k, v)) xs) @ m)"
proof (induction xs arbitrary: m)
  case (Cons kv xs)
  then show ?case by (cases kv) (simp add: update_conv' map_add_def fun_eq_iff split: option.split)
qed simp

lemma fold_update_distinct:
  "distinct (map fst m) \<Longrightarrow> distinct (map fst (fold (\<lambda>(k, v) m. AList.update (f k) v m) xs m))"
proof (induction xs arbitrary: m)
  case (Cons kv xs)
  then show ?case by (cases kv) (simp add: distinct_update)
qed simp

lemma sublist_prefix_absent: "\<not> sublist p k \<Longrightarrow> \<not> prefix p k"
  by (auto simp: sublist_def prefix_def)

lemma short_key_plain: "\<not> prefix image_prefix k \<Longrightarrow> short_key k = k"
  by (simp add: short_key_def)

lemma short_key_image: "\<not> sublist image_prefix cam \<Longrightarrow> short_key (image_prefix @ cam) = cam"
proof -
  have "image_prefix \<noteq> []" by (simp add: image_prefix_def)
  then show "\<not> sublist image_prefix cam \<Longrightarrow> short_key (image_prefix @ cam) = cam"
    by (simp add: short_key_def py_replace_prefix py_replace_absent)
qed

lemma mapped_stats_keys: "set (map fst (mapped_stats stats)) = short_key ` set (map fst stats)"
proof -
  have "dom (map_of (mapped_stats stats)) = dom (map_of (rev (map (\<lambda>(k, v). (short_key k, v)) stats)))"
    by (simp add: mapped_stats_def fold_update_map_of)
  then show ?thesis by (force simp: dom_map_of_conv_image_fst image_iff)
qed

lemma mapped_stats_distinct: "distinct (map fst (mapped_stats stats))"
  by (simp add: mapped_stats_def fold_update_distinct)

subsection \<open>The recording loop\<close>

lemma record_loop_ok:
  "list_all (frame_ok d) frs \<Longrightarrow> record_loop frs d = ok (d\<lparr>buffer := buffer d @ frs\<rparr>)"
  by (induction frs arbitrary: d) (simp_all add: ok_def)

lemma record_episodes_Cons_ok:
  assumes "inf_dst st = Some d" and "buffer d = []" and "list_all (frame_ok d) (rec i)" and "rec i \<noteq> []"
  shows "record_episodes rec (i # is) st =
           record_episodes rec is (st\<lparr>said := said st @ [RecordingEvalEpisode (Suc i) NUM_EPISODES],
                                     inf_dst := Some (d\<lparr>episodes := episodes d @ [rec i]\<rparr>)\<rparr>)"
proof -
  obtain r f fo b e p where d: "d = \<lparr>sink_repo = r, sink_fps = f, frame_ok = fo, buffer = b, episodes = e, pushed = p\<rparr>"
    by (cases d)
  show ?thesis using assms unfolding d by (simp add: record_loop_ok olift_def)
qed

lemma record_episodes_ok:
  assumes "inf_dst st = Some d" and "buffer d = []"
    and "\<forall>i \<in> set is. rec i \<noteq> [] \<and> list_all (frame_ok d) (rec i)"
  shows "record_episodes rec is st =
           ok (st\<lparr>said := said st @ map (\<lambda>i. RecordingEvalEpisode (Suc i) NUM_EPISODES) is,
                  inf_dst := Some (d\<lparr>episodes := episodes d @ map rec is\<rparr>)\<rparr>)"
  using assms
proof (induction "is" arbitrary: st d)
  case Nil
  then show ?case by (cases st) simp
next
  case (Cons i "is")
  let ?d' = "d\<lparr>episodes := episodes d @ [rec i]\<rparr>"
  let ?st' = "st\<lparr>said := said st @ [RecordingEvalEpisode (Suc i) NUM_EPISODES], inf_dst := Some ?d'\<rparr>"
  have ih: "record_episodes rec is ?st' =
          ok (?st'\<lparr>said := said ?st' @ map (\<lambda>i. RecordingEvalEpisode (Suc i) NUM_EPISODES) is,
                   inf_dst := Some (?d'\<lparr>episodes := episodes ?d' @ map rec is\<rparr>)\<rparr>)"
    using Cons.prems by (intro Cons.IH) simp_all
  have "record_episodes rec (i # is @ ks') st = record_episodes rec (is @ ks') ?st'" for ks'
    using Cons.prems by (intro record_episodes_Cons_ok) simp_all
  from this [of "[]"] this [of "k # ks"] ih show ?case by simp
qed

lemma record_episodes_abort:
  assumes "inf_dst st = Some d" and "buffer d = []"
    and "\<forall>i \<in> set is. rec i \<noteq> [] \<and> list_all (frame_ok d) (rec i)" and "rec k = []"
  shows "record_episodes rec (is @ k # ks) st =
           raise_at (st\<lparr>said := said st @ map (\<lambda>i. RecordingEvalEpisode (Suc i) NUM_EPISODES) (is @ [k]),
                        inf_dst := Some (d\<lparr>episodes := episodes d @ map rec is\<rparr>)\<rparr>)
             (ValueError ''no frames in the episode buffer'')"
  using assms
proof (induction "is" arbitrary: st d)
  case Nil
  then show ?case by (simp add: olift_def)
next
  case (Cons i "is")
  let ?d' = "d\<lparr>episodes := episodes d @ [rec i]\<rparr>"
  let ?st' = "st\<lparr>said := said st @ [RecordingEvalEpisode (Suc i) NUM_EPISODES], inf_dst := Some ?d'\<rparr>"
  have ih: "record_episodes rec (is @ k # ks) ?st' =
          raise_at (?st'\<lparr>said := said ?st' @ map (\<lambda>i. RecordingEvalEpisode (Suc i) NUM_EPISODES) (is @ [k]),
                        inf_dst := Some (?d'\<lparr>episodes := episodes ?d' @ map rec is\<rparr>)\<rparr>)
             (ValueError ''no frames in the episode buffer'')"
    using Cons.prems by (intro Cons.IH) simp_all
  have "record_episodes rec (i # is @ ks') st = record_episodes rec (is @ ks') ?st'" for ks'
    using Cons.prems by (intro record_episodes_Cons_ok) simp_all
  from this [of "[]"] this [of "k # ks"] ih show ?case by simp
qed

text \<open>
  The recording loop on any recordings: it seals the episodes up to the first whose
  recording is empty or holds a rejected frame, announcing that one too, and stops there.
\<close>

lemma record_loop_sink:
  assumes "record_loop frs d = (d', r)"
  shows "episodes d' = episodes d \<and> frame_ok d' = frame_ok d \<and> sink_repo d' = sink_repo d \<and>
         pushed d' = pushed d \<and> (r = None \<longleftrightarrow> list_all (frame_ok d) frs) \<and>
         (r = None \<longrightarrow> buffer d' = buffer d @ frs)"
  using assms
proof (induction frs arbitrary: d)
  case Nil
  then show ?case by (simp add: ok_def)
next
  case (Cons fr frs)
  show ?case
  proof (cases "frame_ok d fr")
    case True
    with Cons.prems have "record_loop frs (d\<lparr>buffer := buffer d @ [fr]\<rparr>) = (d', r)" by simp
    from Cons.IH [OF this] True show ?thesis by simp
  next
    case False
    with Cons.prems show ?thesis by auto
  qed
qed

lemma record_episodes_run:
  assumes "inf_dst st = Some d" and "buffer d = []"
  shows "\<exists>d' r. record_episodes rec is st =
            (st\<lparr>said := said st @ announced (take (length (takeWhile (\<lambda>i. rec i \<noteq> [] \<and> list_all (frame_ok d) (rec i)) is)
                                                 + (if r = None then 0 else 1)) is),
                inf_dst := Some d'\<rparr>, r) \<and>
            episodes d' = episodes d @ map rec (takeWhile (\<lambda>i. rec i \<noteq> [] \<and> list_all (frame_ok d) (rec i)) is) \<and>
            frame_ok d' = frame_ok d \<and> sink_repo d' = sink_repo d \<and> pushed d' = pushed d \<and>
            (r = None \<longleftrightarrow> list_all (\<lambda>i. rec i \<noteq> [] \<and> list_all (frame_ok d) (rec i)) is)"
  using assms
proof (induction "is" arbitrary: st d)
  case Nil
  then show ?case by (cases st) (auto simp: ok_def announced_def)
next
  case (Cons i "is")
  let ?good = "\<lambda>i. rec i \<noteq> [] \<and> list_all (frame_ok d) (rec i)"
  let ?st' = "st\<lparr>said := said st @ [RecordingEvalEpisode (Suc i) NUM_EPISODES]\<rparr>"
  obtain d1 r1 where rl: "record_loop (rec i) d = (d1, r1)" by fastforce
  note d1 = record_loop_sink [OF rl]
  show ?case
  proof (cases "?good i")
    case True
    let ?d' = "d\<lparr>episodes := episodes d @ [rec i]\<rparr>"
    have step: "record_episodes rec (i # is) st =
        record_episodes rec is (?st'\<lparr>inf_dst := Some ?d'\<rparr>)"
      using Cons.prems True record_episodes_Cons_ok [of st d rec i "is"] by simp
    obtain d' r where rec_is: "record_episodes rec is (?st'\<lparr>inf_dst := Some ?d'\<rparr>) =
            (?st'\<lparr>inf_dst := Some ?d', said := said ?st' @ announced (take (length (takeWhile (\<lambda>i. rec i \<noteq> [] \<and> list_all (frame_ok ?d') (rec i)) is)
                                                 + (if r = None then 0 else 1)) is),
                inf_dst := Some d'\<rparr>, r)"
      and props: "episodes d' = episodes ?d' @ map rec (takeWhile (\<lambda>i. rec i \<noteq> [] \<and> list_all (frame_ok ?d') (rec i)) is)"
        "frame_ok d' = frame_ok ?d'" "sink_repo d' = sink_repo ?d'" "pushed d' = pushed ?d'"
        "r = None \<longleftrightarrow> list_all (\<lambda>i. rec i \<noteq> [] \<and> list_all (frame_ok ?d') (rec i)) is"
      using Cons.IH [of "?st'\<lparr>inf_dst := Some ?d'\<rparr>" ?d'] Cons.prems by auto
    show ?thesis
      using True step rec_is props by (intro exI [of _ d'] exI [of _ r]) (simp add: announced_def)
  next
    case False
    have r_some: "\<exists>e. record_episodes rec (i # is) st = raise_at (?st'\<lparr>inf_dst := Some d1\<rparr>) e"
    proof (cases r1)
      case None
      with d1 False have "rec i = []" by simp
      with None d1 Cons.prems show ?thesis using rl by (auto simp: raise_at_def)
    next
      case (Some e)
      with rl Cons.prems show ?thesis by auto
    qed
    then obtain e where "record_episodes rec (i # is) st = raise_at (?st'\<lparr>inf_dst := Some d1\<rparr>) e" ..
    then show ?thesis using False d1
      by (intro exI [of _ d1] exI [of _ "Some e"]) (cases st, auto simp: announced_def raise_at_def)
  qed
qed

subsection \<open>Properties of the script\<close>

text \<open>
  Claim C8. With both names bound, when every episode's recording produces at
  least one frame and every frame fits the feature schema, the script announces and
  seals \<^verbatim>\<open>NUM_EPISODES\<close> episodes, one per recording in order, publishes the dataset,
  disconnects the robot, and hands the renamed statistics to the preprocessor.
\<close>

theorem inference_records_episodes:
  assumes "smolvla_bound b" and "hf_dataset_id b = Some repo"
    and "\<forall>i < NUM_EPISODES. rec i \<noteq> [] \<and> list_all feats (rec i)"
  shows "\<exists>st d. inference_main b feats stats rec = ok st \<and> inf_dst st = Some d \<and>
           episodes d = map rec [0..<NUM_EPISODES] \<and> buffer d = [] \<and> pushed d \<and> sink_repo d = repo \<and>
           \<not> robot_connected st \<and> preprocessor_stats st = mapped_stats stats \<and>
           said st = map (\<lambda>i. RecordingEvalEpisode (Suc i) NUM_EPISODES) [0..<NUM_EPISODES]"
proof -
  let ?st1 = "\<lparr>robot_connected = True, inf_dst = Some (create repo FPS feats),
               preprocessor_stats = mapped_stats stats, said = []\<rparr>"
  have "record_episodes rec [0..<NUM_EPISODES] ?st1 =
          ok (?st1\<lparr>said := map (\<lambda>i. RecordingEvalEpisode (Suc i) NUM_EPISODES) [0..<NUM_EPISODES],
                   inf_dst := Some ((create repo FPS feats)\<lparr>episodes := map rec [0..<NUM_EPISODES]\<rparr>)\<rparr>)"
    using assms(3) record_episodes_ok [of ?st1 "create repo FPS feats" "[0..<NUM_EPISODES]" rec] by simp
  with assms(1,2) show ?thesis by (simp add: inference_main_def create_def push_to_hub_def)
qed

theorem inference_records_episodes_witness:
  "smolvla_bound \<lparr>smolvla_bound = True, hf_dataset_id = Some ''eval''\<rparr> \<and>
   list_all (\<lambda>i. (\<lambda>i. [[(''task'', VStr ''pick'')]]) i \<noteq> [] \<and>
                    list_all (\<lambda>fr. True) ((\<lambda>i. [[(''task'', VStr ''pick'')]]) i)) [0..<NUM_EPISODES] \<and>
   (\<exists>st d. inference_main \<lparr>smolvla_bound = True, hf_dataset_id = Some ''eval''\<rparr> (\<lambda>fr. True) []
              (\<lambda>i. [[(''task'', VStr ''pick'')]]) = ok st \<and>
      inf_dst st = Some d \<and> length (episodes d) = 5 \<and> pushed d \<and> \<not> robot_connected st)"
  using inference_records_episodes [of "\<lparr>smolvla_bound = True, hf_dataset_id = Some ''eval''\<rparr>" "''eval''"
      "\<lambda>i. [[(''task'', VStr ''pick'')]]" "\<lambda>fr. True" "[]"]
  by (auto simp: NUM_EPISODES_def list_all_iff)

text \<open>
  Claim C18. There is no \<^verbatim>\<open>try\<close>/\<^verbatim>\<open>finally\<close>: if the recording of episode \<open>k\<close>
  produces no frame (the earlier ones all recorded), its \<^verbatim>\<open>save_episode\<close> raises, the
  script ends with the robot still connected and nothing published, the episodes
  recorded so far never uploaded.
\<close>

theorem inference_empty_episode_aborts:
  assumes "smolvla_bound b" and "hf_dataset_id b = Some repo" and "k < NUM_EPISODES"
    and "\<forall>i < k. rec i \<noteq> [] \<and> list_all feats (rec i)" and "rec k = []"
  shows "\<exists>st d. inference_main b feats stats rec = raise_at st (ValueError ''no frames in the episode buffer'') \<and>
           robot_connected st \<and> inf_dst st = Some d \<and> \<not> pushed d \<and> episodes d = map rec [0..<k]"
proof -
  let ?st1 = "\<lparr>robot_connected = True, inf_dst = Some (create repo FPS feats),
               preprocessor_stats = mapped_stats stats, said = []\<rparr>"
  have split: "[0..<NUM_EPISODES] = [0..<k] @ k # [Suc k..<NUM_EPISODES]"
    using assms(3) upt_add_eq_append [of 0 k "NUM_EPISODES - k"] upt_conv_Cons [of k NUM_EPISODES] by simp
  have "record_episodes rec ([0..<k] @ k # [Suc k..<NUM_EPISODES]) ?st1 =
          raise_at (?st1\<lparr>said := map (\<lambda>i. RecordingEvalEpisode (Suc i) NUM_EPISODES) ([0..<k] @ [k]),
                        inf_dst := Some ((create repo FPS feats)\<lparr>episodes := map rec [0..<k]\<rparr>)\<rparr>)
             (ValueError ''no frames in the episode buffer'')"
    using assms(4,5) record_episodes_abort [of ?st1 "create repo FPS feats" "[0..<k]" rec k] by simp
  with assms(1,2) split show ?thesis by (simp add: inference_main_def create_def raise_at_def)
qed

theorem inference_empty_episode_aborts_witness:
  "2 < NUM_EPISODES \<and>
   (\<exists>st d. inference_main \<lparr>smolvla_bound = True, hf_dataset_id = Some ''eval''\<rparr> (\<lambda>fr. True) []
              (\<lambda>i. if i < 2 then [[(''task'', VStr ''pick'')]] else []) =
            raise_at st (ValueError ''no frames in the episode buffer'') \<and>
      robot_connected st \<and> inf_dst st = Some d \<and> \<not> pushed d \<and> length (episodes d) = 2)"
  using inference_empty_episode_aborts [of "\<lparr>smolvla_bound = True, hf_dataset_id = Some ''eval''\<rparr>" "''eval''" 2
      "\<lambda>i. if i < 2 then [[(''task'', VStr ''pick'')]] else []" "\<lambda>fr. True" "[]"]
  by (auto simp: NUM_EPISODES_def)

text \<open>
  Claim C31. Two statistics collide: when \<^verbatim>\<open>dataset.meta.stats\<close> holds both
  \<^verbatim>\<open>observation.images.<cam>\<close> and a key \<^verbatim>\<open><cam>\<close> (with \<open>cam\<close> free of the prefix),
  \<^verbatim>\<open>short_key\<close> renames both to \<open>cam\<close> and the dict built at lines 53--59 keeps only
  one of them: the preprocessor receives fewer statistics than the dataset has, the
  name \<open>cam\<close> still present, without any error.
\<close>

theorem mapped_stats_collision:
  assumes "distinct (map fst stats)" and "\<not> sublist image_prefix cam"
    and "image_prefix @ cam \<in> set (map fst stats)" and "cam \<in> set (map fst stats)"
  shows "length (mapped_stats stats) < length stats \<and> cam \<in> set (map fst (mapped_stats stats))"
proof -
  let ?K = "set (map fst stats)"
  have ks: "set (map fst (mapped_stats stats)) = short_key ` ?K"
    by (rule mapped_stats_keys)
  have "image_prefix @ cam \<noteq> cam" by (simp add: image_prefix_def)
  moreover have "short_key (image_prefix @ cam) = short_key cam"
    using assms(2) by (simp add: short_key_image short_key_plain sublist_prefix_absent)
  ultimately have "\<not> inj_on short_key ?K"
    using assms(3,4) inj_onD [of short_key ?K "image_prefix @ cam" cam] by blast
  then have "card (short_key ` ?K) < card ?K"
    using inj_on_iff_eq_card [of ?K short_key] card_image_le [of ?K short_key] by simp
  moreover have "card ?K = length stats"
    using assms(1) distinct_card [of "map fst stats"] by simp
  moreover have "card (short_key ` ?K) = length (mapped_stats stats)"
    using ks mapped_stats_distinct [of stats] distinct_card [of "map fst (mapped_stats stats)"] by simp
  moreover have "cam \<in> short_key ` ?K"
    using assms(2,4) by (force simp: short_key_plain sublist_prefix_absent)
  ultimately show ?thesis using ks by simp
qed

theorem mapped_stats_collision_witness:
  "distinct (map fst [(''observation.images.top'', [] :: stat), (''top'', [])]) \<and>
   \<not> sublist image_prefix ''top'' \<and>
   image_prefix @ ''top'' \<in> set (map fst [(''observation.images.top'', [] :: stat), (''top'', [])]) \<and>
   ''top'' \<in> set (map fst [(''observation.images.top'', [] :: stat), (''top'', [])]) \<and>
   length (mapped_stats [(''observation.images.top'', [] :: stat), (''top'', [])]) < 2"
proof -
  have np: "\<not> sublist image_prefix ''top''" by (simp add: image_prefix_def sublist_Cons_right)
  have "image_prefix @ ''top'' = ''observation.images.top''" by (simp add: image_prefix_def)
  with np show ?thesis
    using mapped_stats_collision [of "[(''observation.images.top'', [] :: stat), (''top'', [])]" "''top''"]
    by simp
qed

text \<open>
  Claim C32. An image key \<^verbatim>\<open>observation.images.<cam>\<close> is renamed to the camera name
  \<open>cam\<close>, provided \<open>cam\<close> does not itself contain the prefix (\<^verbatim>\<open>replace\<close> removes every
  occurrence, not only the leading one).
\<close>

theorem short_key_camera:
  "\<not> sublist image_prefix cam \<Longrightarrow> short_key (image_prefix @ cam) = cam"
proof -
  have "image_prefix \<noteq> []" by (simp add: image_prefix_def)
  then show "\<not> sublist image_prefix cam \<Longrightarrow> short_key (image_prefix @ cam) = cam"
    by (simp add: short_key_def py_replace_prefix py_replace_absent)
qed

theorem short_key_camera_witness:
  "\<not> sublist image_prefix ''top'' \<and> short_key (image_prefix @ ''top'') = ''top''"
  using short_key_camera [of "''top''"] by (simp add: image_prefix_def sublist_Cons_right)


text \<open>
  Claim C13. The recording script on any recordings, with both names bound: announcements and
  seals alternate in episode order. With \<open>k\<close> the number of leading episodes whose
  recording is non-empty and fits the feature schema, the script seals exactly those
  \<open>k\<close> recordings, announces one more episode when it stops early, and publishes the
  dataset and disconnects the robot exactly when all \<^verbatim>\<open>NUM_EPISODES\<close> were sealed; on
  an early stop the exception ends the script with the robot still connected.
\<close>

theorem inference_run:
  assumes "smolvla_bound b" and "hf_dataset_id b = Some repo"
  shows "\<exists>st d r. inference_main b feats stats rec = (st, r) \<and> inf_dst st = Some d \<and>
           episodes d = map rec [0..<length (takeWhile (\<lambda>i. rec i \<noteq> [] \<and> list_all feats (rec i)) [0..<NUM_EPISODES])] \<and>
           said st = announced (take (length (takeWhile (\<lambda>i. rec i \<noteq> [] \<and> list_all feats (rec i)) [0..<NUM_EPISODES])
                                      + (if r = None then 0 else 1)) [0..<NUM_EPISODES]) \<and>
           (r = None \<longleftrightarrow> length (takeWhile (\<lambda>i. rec i \<noteq> [] \<and> list_all feats (rec i)) [0..<NUM_EPISODES]) = NUM_EPISODES) \<and>
           pushed d = (r = None) \<and> robot_connected st = (r \<noteq> None) \<and> sink_repo d = repo \<and>
           preprocessor_stats st = mapped_stats stats"
proof -
  let ?st1 = "\<lparr>robot_connected = True, inf_dst = Some (create repo FPS feats),
               preprocessor_stats = mapped_stats stats, said = []\<rparr>"
  let ?tw = "takeWhile (\<lambda>i. rec i \<noteq> [] \<and> list_all feats (rec i)) [0..<NUM_EPISODES]"
  obtain d' r where run: "record_episodes rec [0..<NUM_EPISODES] ?st1 =
            (?st1\<lparr>said := announced (take (length ?tw + (if r = None then 0 else 1)) [0..<NUM_EPISODES]),
                inf_dst := Some d'\<rparr>, r)"
    and eps: "episodes d' = map rec ?tw" and repo: "sink_repo d' = repo" and pu: "pushed d' = False"
    and rn: "r = None \<longleftrightarrow> list_all (\<lambda>i. rec i \<noteq> [] \<and> list_all feats (rec i)) [0..<NUM_EPISODES]"
    using record_episodes_run [of ?st1 "create repo FPS feats" rec "[0..<NUM_EPISODES]"]
    by (auto simp: create_def)
  have rn': "r = None \<longleftrightarrow> length ?tw = NUM_EPISODES"
    using rn list_all_takeWhile_length [of _ "[0..<NUM_EPISODES]"] by simp
  show ?thesis
  proof (cases r)
    case None
    with assms run eps repo rn' show ?thesis
      by (subst takeWhile_upt [symmetric]) (simp add: inference_main_def ok_def push_to_hub_def)
  next
    case (Some e)
    with assms run eps repo pu rn' show ?thesis
      by (subst takeWhile_upt [symmetric]) (simp add: inference_main_def raise_at_def)
  qed
qed

theorem inference_run_witness:
  "smolvla_bound \<lparr>smolvla_bound = True, hf_dataset_id = Some ''eval''\<rparr> \<and>
   hf_dataset_id \<lparr>smolvla_bound = True, hf_dataset_id = Some ''eval''\<rparr> = Some ''eval'' \<and>
   (\<exists>st d r. inference_main \<lparr>smolvla_bound = True, hf_dataset_id = Some ''eval''\<rparr> (\<lambda>fr. True) []
              (\<lambda>i. if i < 2 then [[(''task'', VStr ''pick'')]] else []) = (st, r) \<and>
      inf_dst st = Some d \<and> length (episodes d) = 2 \<and> r \<noteq> None \<and> \<not> pushed d \<and> robot_connected st \<and>
      said st = [RecordingEvalEpisode 1 5, RecordingEvalEpisode 2 5, RecordingEvalEpisode 3 5])"
proof -
  let ?rec = "\<lambda>i::nat. if i < 2 then [[(''task'', VStr ''pick'')]] else []"
  have tw: "length (takeWhile (\<lambda>i. ?rec i \<noteq> [] \<and> list_all (\<lambda>fr. True) (?rec i)) [0..<NUM_EPISODES]) = 2"
    by (simp add: NUM_EPISODES_def upt_rec)
  have n: "NUM_EPISODES = 5" by (simp add: NUM_EPISODES_def)
  from inference_run [of "\<lparr>smolvla_bound = True, hf_dataset_id = Some ''eval''\<rparr>" "''eval''" "\<lambda>fr. True" "[]" ?rec]
  obtain st d r where
    "inference_main \<lparr>smolvla_bound = True, hf_dataset_id = Some ''eval''\<rparr> (\<lambda>fr. True) [] ?rec = (st, r)"
    "inf_dst st = Some d"
    "episodes d = map ?rec [0..<length (takeWhile (\<lambda>i. ?rec i \<noteq> [] \<and> list_all (\<lambda>fr. True) (?rec i)) [0..<NUM_EPISODES])]"
    "said st = announced (take (length (takeWhile (\<lambda>i. ?rec i \<noteq> [] \<and> list_all (\<lambda>fr. True) (?rec i)) [0..<NUM_EPISODES])
                                      + (if r = None then 0 else 1)) [0..<NUM_EPISODES])"
    "(r = None) = (length (takeWhile (\<lambda>i. ?rec i \<noteq> [] \<and> list_all (\<lambda>fr. True) (?rec i)) [0..<NUM_EPISODES]) = NUM_EPISODES)"
    "pushed d = (r = None)" "robot_connected st = (r \<noteq> None)"
    by auto
  then show ?thesis unfolding tw n by (auto simp: announced_def upt_rec NUM_EPISODES_def)
qed

end
