(* ===== verification/CleanProgress.thy ===== *)
theory CleanProgress
  imports CleanDataset
begin

text \<open>
  What the \<^verbatim>\<open>try\<close>/\<^verbatim>\<open>except\<close> of \<^verbatim>\<open>create_clean_dataset\<close>
  (\<^verbatim>\<open>src/own_scripts/clean_dataset.py\<close>, lines 29--74) guarantees for every source, with
  no condition on the samples: each index of the source ends in exactly one of three
  ways (its frame is counted, it is reported as skipped, or its episode is excluded),
  the skip reports come in index order, each index at most once, and a sample that
  fails to load is reported whatever the other samples do: one failure never stops the
  loop (contrast \<^verbatim>\<open>merge_datasets.py\<close>, MergeDatasets).
\<close>

text \<open>
  An index whose episode is excluded: its index is read and found in the exclusion
  list, the \<^verbatim>\<open>continue\<close> of line 42.
\<close>

definition excluded_at :: "int list \<Rightarrow> bool \<Rightarrow> entry \<Rightarrow> bool" where
  "excluded_at excl hf ent =
     (case read_episode_index hf ent of Inl e \<Rightarrow> False | Inr ep \<Rightarrow> py_in ep excl = Inr True)"

text \<open>
  An entry that fills the open episode \<open>u\<close>: its index is read as \<open>u\<close>, not excluded,
  its sample loads and its frame is built and accepted by \<open>feats\<close>.
\<close>

definition fills_episode :: "features \<Rightarrow> int list \<Rightarrow> bool \<Rightarrow> int \<Rightarrow> entry \<Rightarrow> bool" where
  "fills_episode feats excl hf u ent =
     (case keep excl hf ent of Some (k, fr) \<Rightarrow> k = u \<and> feats fr | None \<Rightarrow> False)"

lemmas clean_eval = create_clean_dataset_def init_clean_state_def clean_step_def clean_body_def
  read_episode_index_def ex_source_def ex_entry_def ex_broken_def start_episode_def copy_sample_def
  olift_def ok_def prepare_frame_def ex_sample_def add_item_def bookkeeping_keys_def frame_value_def
  save_final_def create_def add_frame_def save_episode_def push_to_hub_def

subsection \<open>One iteration\<close>

lemma start_episode_samples:
  "samples_copied (fst (start_episode ep st)) = samples_copied st"
  by (auto simp: start_episode_def olift_def raise_at_def ok_def split: sum.split bool.split)

lemma copy_sample_account:
  "samples_copied (fst (copy_sample s st)) =
     (if snd (copy_sample s st) = None then Suc (samples_copied st) else samples_copied st)"
  by (auto simp: copy_sample_def olift_def raise_at_def ok_def Let_def split: sum.split)

text \<open>
  The body of the \<^verbatim>\<open>try\<close> counts the sample exactly when it neither raises nor meets an
  excluded episode.
\<close>

lemma clean_body_account:
  "samples_copied (fst (clean_body excl hf ent st)) + (if snd (clean_body excl hf ent st) = None then 0 else 1)
     + (if excluded_at excl hf ent then 1 else 0) = Suc (samples_copied st)"
proof -
  have ob: "samples_copied (fst (obind (start_episode ep st) (copy_sample s))) =
          (if snd (obind (start_episode ep st) (copy_sample s)) = None then Suc (samples_copied st)
           else samples_copied st)" for ep s
    using copy_sample_account [of s "fst (start_episode ep st)"] start_episode_samples [of ep st]
    by (cases "start_episode ep st" rule: prod.exhaust, rename_tac a b, case_tac b) auto
  then show ?thesis
    by (auto simp: ob clean_body_def excluded_at_def olift_def raise_at_def ok_def
        split: sum.split bool.split)
qed

lemma clean_step_account:
  "samples_copied (clean_step excl hf i ent st) + length (skipped_indices (log (clean_step excl hf i ent st)))
     + (if excluded_at excl hf ent then 1 else 0)
   = Suc (samples_copied st + length (skipped_indices (log st)))"
  using clean_body_account [of excl hf ent st] clean_step_skipped [of excl hf i ent st]
  by (auto simp: clean_step_def split: prod.split option.split)

lemma clean_step_log: "\<exists>l. log (clean_step excl hf i ent st) = log st @ l"
  using clean_body_log [of excl hf ent st] by (auto simp: clean_step_def split: prod.split option.split)

lemma clean_step_reports:
  assumes "read_episode_index hf ent = Inr ep" and "py_in ep excl = Inr False" and "snd ent = Inl e"
  shows "log (clean_step excl hf i ent st) = log st @ [SkippingSample i e]"
  using assms by (simp add: clean_step_def clean_body_def olift_def raise_at_def)

subsection \<open>The loop\<close>

lemma clean_loop_append:
  "clean_loop excl hf i (xs @ ys) st = clean_loop excl hf (i + length xs) ys (clean_loop excl hf i xs st)"
  by (induction xs arbitrary: i st) simp_all

lemma clean_loop_log: "\<exists>l. log (clean_loop excl hf i ents st) = log st @ l"
proof (induction ents arbitrary: i st)
  case (Cons ent ents)
  obtain l where "log (clean_step excl hf i ent st) = log st @ l"
    using clean_step_log by blast
  moreover obtain l' where "log (clean_loop excl hf (Suc i) ents (clean_step excl hf i ent st)) =
      log (clean_step excl hf i ent st) @ l'"
    using Cons by blast
  ultimately show ?case by auto
qed simp

lemma clean_loop_account:
  "samples_copied (clean_loop excl hf i ents st) + length (skipped_indices (log (clean_loop excl hf i ents st)))
     + length (filter (excluded_at excl hf) ents)
   = samples_copied st + length (skipped_indices (log st)) + length ents"
proof (induction ents arbitrary: i st)
  case (Cons ent ents)
  show ?case
    using Cons [of "Suc i" "clean_step excl hf i ent st"] clean_step_account [of excl hf i ent st]
    by (simp split: if_splits)
qed simp

text \<open>The loop reports the indices it skips in increasing order, each within its range.\<close>

lemma clean_loop_skipped_range:
  "\<exists>js. skipped_indices (log (clean_loop excl hf i ents st)) = skipped_indices (log st) @ js \<and>
        sorted_wrt (<) js \<and> set js \<subseteq> {i..<i + length ents}"
proof (induction ents arbitrary: i st)
  case (Cons ent ents)
  obtain js where js: "skipped_indices (log (clean_loop excl hf (Suc i) ents (clean_step excl hf i ent st))) =
      skipped_indices (log (clean_step excl hf i ent st)) @ js"
    and srt: "sorted_wrt (<) js" and rng: "set js \<subseteq> {Suc i..<Suc i + length ents}"
    using Cons [of "Suc i" "clean_step excl hf i ent st"] by blast
  let ?h = "if snd (clean_body excl hf ent st) = None then [] else [i]"
  have "sorted_wrt (<) (?h @ js)" and "set (?h @ js) \<subseteq> {i..<i + length (ent # ents)}"
    using srt rng by (auto simp: sorted_wrt_append)
  with js show ?case
    by (intro exI [of _ "?h @ js"]) (simp add: clean_step_skipped)
qed simp

lemma clean_loop_reports:
  assumes "i < length ents" and "read_episode_index hf (ents ! i) = Inr ep"
    and "py_in ep excl = Inr False" and "snd (ents ! i) = Inl e"
  shows "SkippingSample (j + i) e \<in> set (log (clean_loop excl hf j ents st))"
proof -
  have ents: "ents = take i ents @ (ents ! i) # drop (Suc i) ents"
    using assms(1) by (simp add: id_take_nth_drop)
  let ?s = "clean_loop excl hf j (take i ents) st"
  have "log (clean_step excl hf (j + i) (ents ! i) ?s) = log ?s @ [SkippingSample (j + i) e]"
    using assms(2-4) by (rule clean_step_reports)
  moreover obtain l where "log (clean_loop excl hf (Suc (j + i)) (drop (Suc i) ents)
      (clean_step excl hf (j + i) (ents ! i) ?s)) = log (clean_step excl hf (j + i) (ents ! i) ?s) @ l"
    using clean_loop_log by blast
  moreover have "clean_loop excl hf j ents st =
      clean_loop excl hf (Suc (j + i)) (drop (Suc i) ents) (clean_step excl hf (j + i) (ents ! i) ?s)"
    using assms(1) clean_loop_append [of excl hf j "take i ents" "(ents ! i) # drop (Suc i) ents" st]
    by (simp add: ents [symmetric] min_absorb2)
  ultimately show ?thesis by simp
qed

subsection \<open>An open episode that never fills\<close>

text \<open>
  With an open episode whose buffer is empty, an entry that does not fill it changes
  nothing but the printed messages: another index makes \<^verbatim>\<open>save_episode\<close> raise on the
  empty buffer (line 50), a rejected frame makes \<^verbatim>\<open>add_frame\<close> raise (line 66), and
  both are caught.
\<close>

lemma py_ne_same_scalar:
  assumes "py_ne (Some v) ep = Inr False" and "scalar_of v = Some u"
  obtains v' where "ep = Some v'" and "scalar_of v' = Some u"
  using assms
  by (cases ep; cases v rule: scalar_of.cases) (auto split: option.splits if_splits)

lemma clean_body_stuck:
  assumes cur: "current_episode st = Some v" and sv: "scalar_of v = Some u"
    and buf: "buffer (dst st) = []" and nf: "\<not> fills_episode (frame_ok (dst st)) excl hf u ent"
  shows "fst (clean_body excl hf ent st) = st"
proof (cases "read_episode_index hf ent")
  case (Inr ep)
  note rd = Inr
  show ?thesis
  proof (cases "py_in ep excl = Inr False \<and> \<not> isl (snd ent)")
    case True
    then obtain s where pin: "py_in ep excl = Inr False" and se: "snd ent = Inr s"
      by (cases "snd ent") auto
    have body: "clean_body excl hf ent st = obind (start_episode ep st) (copy_sample s)"
      using Inr pin se by (simp add: clean_body_def)
    show ?thesis
    proof (cases "py_ne (Some v) ep = Inr False")
      case same: True
      obtain v' where ep: "ep = Some v'" and sv': "scalar_of v' = Some u"
        using same sv by (rule py_ne_same_scalar)
      have "start_episode ep st = ok st" using same cur by (simp add: start_episode_def)
      moreover have "fst (copy_sample s st) = st"
      proof (cases "prepare_frame s")
        case (Inr fr)
        have "keep excl hf ent = Some (u, fr)"
          using Inr rd ep sv' pin se by (simp add: keep_def keyed_sample_def)
        with nf have "\<not> frame_ok (dst st) fr" by (simp add: fills_episode_def)
        with Inr show ?thesis by (simp add: copy_sample_def)
      qed (simp add: copy_sample_def)
      ultimately show ?thesis using body by simp
    next
      case False
      then have "fst (start_episode ep st) = st" and "snd (start_episode ep st) \<noteq> None"
        using cur buf by (auto simp: start_episode_def split: sum.split bool.split)
      then show ?thesis using body by (cases "start_episode ep st") auto
    qed
  next
    case False
    then show ?thesis using Inr
      by (auto simp: clean_body_def isl_def olift_def raise_at_def ok_def split: sum.split bool.split)
  qed
qed (simp add: clean_body_def)

lemma clean_step_frame_ok: "frame_ok (dst (clean_step excl hf i ent st)) = frame_ok (dst st)"
  by (auto simp: clean_step_def clean_body_def start_episode_def copy_sample_def olift_def
      raise_at_def ok_def Let_def add_frame_def save_episode_def
      split: sum.split bool.split option.split prod.split if_splits)

lemma clean_loop_frame_ok: "frame_ok (dst (clean_loop excl hf i ents st)) = frame_ok (dst st)"
  by (induction ents arbitrary: i st) (simp_all add: clean_step_frame_ok)

lemma clean_loop_stuck:
  assumes "current_episode st = Some v" and "scalar_of v = Some u" and "buffer (dst st) = []"
    and "list_all (\<lambda>ent. \<not> fills_episode (frame_ok (dst st)) excl hf u ent) ents"
  shows "\<exists>l. clean_loop excl hf i ents st = st\<lparr>log := l\<rparr>"
  using assms
proof (induction ents arbitrary: i st)
  case Nil
  then show ?case using clean_state_log_self by auto
next
  case (Cons ent ents)
  have "fst (clean_body excl hf ent st) = st"
    using Cons.prems by (intro clean_body_stuck) auto
  then have "\<exists>l. clean_step excl hf i ent st = st\<lparr>log := l\<rparr>"
    using clean_state_log_self [of st]
    by (cases "clean_body excl hf ent st" rule: prod.exhaust, rename_tac a b, case_tac b)
      (auto simp: clean_step_def)
  then obtain l where s: "clean_step excl hf i ent st = st\<lparr>log := l\<rparr>" ..
  obtain l' where "clean_loop excl hf (Suc i) ents (st\<lparr>log := l\<rparr>) = st\<lparr>log := l, log := l'\<rparr>"
    using Cons.IH [of "st\<lparr>log := l\<rparr>"] Cons.prems by auto
  with s show ?case by auto
qed

subsection \<open>The whole function\<close>

lemma save_final_samples: "save_final st = Inr st' \<Longrightarrow> samples_copied st' = samples_copied st"
  by (auto simp: save_final_def split: if_splits sum.splits)

lemma save_final_log: "save_final st = Inr st' \<Longrightarrow> \<exists>l. log st' = log st @ l"
  by (auto simp: save_final_def split: if_splits sum.splits)

lemma init_clean_state_skipped [simp]:
  "skipped_indices (log (init_clean_state src target excl)) = []"
  "samples_copied (init_clean_state src target excl) = 0"
  by (simp_all add: init_clean_state_def)

text \<open>The run of \<^verbatim>\<open>create_clean_dataset\<close> up to the final seal, and what follows it.\<close>

lemma create_clean_dataset_loop:
  assumes "create_clean_dataset src target excl = Inr st"
  obtains st' where
    "save_final (clean_loop excl (has_hf_dataset src) 0 (entries src) (init_clean_state src target excl)) = Inr st'"
    "samples_copied st = samples_copied st'"
    "log st = log st' @ [CleaningComplete, SamplesCopiedTotal (samples_copied st'),
                         EpisodesCopiedTotal (episodes_copied st'), UploadingClean, CleanUploaded target]"
  using assms by (auto simp: create_clean_dataset_def split: sum.splits)

lemma create_clean_dataset_log:
  assumes "create_clean_dataset src target excl = Inr st"
  shows "\<exists>l. log st = log (clean_loop excl (has_hf_dataset src) 0 (entries src)
                                 (init_clean_state src target excl)) @ l"
proof -
  obtain st' where fin: "save_final (clean_loop excl (has_hf_dataset src) 0 (entries src)
                                       (init_clean_state src target excl)) = Inr st'"
    and "log st = log st' @ [CleaningComplete, SamplesCopiedTotal (samples_copied st'),
                             EpisodesCopiedTotal (episodes_copied st'), UploadingClean, CleanUploaded target]"
    using assms by (auto elim: create_clean_dataset_loop)
  with save_final_log [OF fin] show ?thesis by auto
qed

subsection \<open>Every index accounted for\<close>

text \<open>
  Claim C11. For every source, when \<^verbatim>\<open>create_clean_dataset\<close> finishes, each index of
  the source is accounted for exactly once: the printed \<^verbatim>\<open>samples_copied\<close>, the
  number of "Skipping corrupted sample" reports and the number of indices of an
  excluded episode add up to \<^verbatim>\<open>len(source_dataset)\<close>; the reports name strictly
  increasing indices of the source. (The specification's "appended frames equal the
  non-excluded, non-failing samples", with exclusion and failure as the loop sees them.)
\<close>

theorem clean_every_index_accounted:
  assumes "create_clean_dataset src target excl = Inr st"
  shows "samples_copied st + length (skipped_indices (log st)) +
           length (filter (excluded_at excl (has_hf_dataset src)) (entries src)) = length (entries src) \<and>
         sorted_wrt (<) (skipped_indices (log st)) \<and> set (skipped_indices (log st)) \<subseteq> {..<length (entries src)}"
proof -
  let ?s_loop = "clean_loop excl (has_hf_dataset src) 0 (entries src) (init_clean_state src target excl)"
  obtain st' where fin: "save_final ?s_loop = Inr st'" and sc: "samples_copied st = samples_copied st'"
    and lg: "log st = log st' @ [CleaningComplete, SamplesCopiedTotal (samples_copied st'),
                         EpisodesCopiedTotal (episodes_copied st'), UploadingClean, CleanUploaded target]"
    using assms by (rule create_clean_dataset_loop)
  have sk: "skipped_indices (log st) = skipped_indices (log ?s_loop)"
    using lg save_final_skipped [OF fin] by simp
  have "samples_copied st = samples_copied ?s_loop"
    using sc save_final_samples [OF fin] by simp
  moreover have "samples_copied ?s_loop + length (skipped_indices (log ?s_loop)) +
      length (filter (excluded_at excl (has_hf_dataset src)) (entries src)) = length (entries src)"
    using clean_loop_account [of excl "has_hf_dataset src" 0 "entries src" "init_clean_state src target excl"]
    by simp
  moreover obtain js where "skipped_indices (log ?s_loop) = js" and "sorted_wrt (<) js"
    and "set js \<subseteq> {0..<length (entries src)}"
    using clean_loop_skipped_range [of excl "has_hf_dataset src" 0 "entries src" "init_clean_state src target excl"]
    by auto
  ultimately show ?thesis using sk by auto
qed

theorem clean_every_index_accounted_witness:
  "\<exists>st. create_clean_dataset (ex_source True [ex_entry 0, ex_broken 0, ex_entry 49, ex_entry 1]) ''clean'' [49]
          = Inr st \<and>
     samples_copied st = 2 \<and> skipped_indices (log st) = [1] \<and>
     length (filter (excluded_at [49] True) [ex_entry 0, ex_broken 0, ex_entry 49, ex_entry 1]) = 1 \<and>
     samples_copied st + length (skipped_indices (log st)) +
       length (filter (excluded_at [49] True) [ex_entry 0, ex_broken 0, ex_entry 49, ex_entry 1]) = 4 \<and>
     sorted_wrt (<) (skipped_indices (log st))"
proof -
  let ?src = "ex_source True [ex_entry 0, ex_broken 0, ex_entry 49, ex_entry 1]"
  have "\<exists>st. create_clean_dataset ?src ''clean'' [49] = Inr st \<and> samples_copied st = 2 \<and>
          skipped_indices (log st) = [1]"
    by (simp add: clean_eval)
  then obtain st where c: "create_clean_dataset ?src ''clean'' [49] = Inr st"
    and s: "samples_copied st = 2" "skipped_indices (log st) = [1]" by blast
  have x: "length (filter (excluded_at [49] True) [ex_entry 0, ex_broken 0, ex_entry 49, ex_entry 1]) = 1"
    by (simp add: excluded_at_def read_episode_index_def ex_entry_def ex_broken_def)
  show ?thesis using clean_every_index_accounted [OF c] c s x by auto
qed

subsection \<open>Every failure is reported\<close>

text \<open>
  Claim C12. Liveness of the skip policy: a sample that fails to load, at an index
  whose episode index is read and not excluded, is reported with its index and its
  exception, whatever the other samples of the source do; the report is printed during
  the loop and is in the output of a run that finishes. No failure stops the loop.
\<close>

theorem clean_reports_every_failure:
  assumes "i < length (entries src)"
    and "read_episode_index (has_hf_dataset src) (entries src ! i) = Inr ep"
    and "py_in ep excl = Inr False" and "snd (entries src ! i) = Inl e"
  shows "SkippingSample i e \<in> set (log (clean_loop excl (has_hf_dataset src) 0 (entries src)
                                         (init_clean_state src target excl))) \<and>
         (case create_clean_dataset src target excl of
            Inr st \<Rightarrow> SkippingSample i e \<in> set (log st)
          | Inl e' \<Rightarrow> True)"
proof -
  have m: "SkippingSample i e \<in> set (log (clean_loop excl (has_hf_dataset src) 0 (entries src)
                                         (init_clean_state src target excl)))"
    using clean_loop_reports [OF assms, of 0] by simp
  moreover have "SkippingSample i e \<in> set (log st)" if "create_clean_dataset src target excl = Inr st" for st
    using create_clean_dataset_log [OF that] m by auto
  ultimately show ?thesis by (simp split: sum.split)
qed

theorem clean_reports_every_failure_witness:
  "1 < length [ex_entry 0, ex_broken 0, ex_entry 49, ex_broken 2] \<and>
   read_episode_index True ([ex_entry 0, ex_broken 0, ex_entry 49, ex_broken 2] ! 3) = Inr (Some (VTensor [] [2])) \<and>
   py_in (Some (VTensor [] [2])) [49] = Inr False \<and>
   snd ([ex_entry 0, ex_broken 0, ex_entry 49, ex_broken 2] ! 3) = Inl (LibraryError ''corrupted video frame'') \<and>
   SkippingSample 3 (LibraryError ''corrupted video frame'') \<in>
     set (log (clean_loop [49] True 0 [ex_entry 0, ex_broken 0, ex_entry 49, ex_broken 2]
                (init_clean_state (ex_source True [ex_entry 0, ex_broken 0, ex_entry 49, ex_broken 2]) ''clean'' [49])))"
  using clean_reports_every_failure [of 3 "ex_source True [ex_entry 0, ex_broken 0, ex_entry 49, ex_broken 2]"
      "Some (VTensor [] [2])" "[49]" "LibraryError ''corrupted video frame''" "''clean''"]
  by (simp add: read_episode_index_def ex_entry_def ex_broken_def)

subsection \<open>A rejected episode ends the script\<close>

text \<open>
  Claim C22. A failure inside the \<^verbatim>\<open>try\<close> after the episode switch leaves
  \<^verbatim>\<open>current_episode\<close> pointing at an episode with no buffered frame. For every source:
  if, after some prefix of the source, the loop holds such an open, empty episode
  \<open>u\<close>, and no later entry brings an accepted frame of \<open>u\<close>, then no later sample is
  copied (each one of another episode makes \<^verbatim>\<open>save_episode\<close> raise on the empty buffer,
  caught and reported as skipped) and the final \<^verbatim>\<open>save_episode\<close>, outside the
  \<^verbatim>\<open>try\<close>, ends the script before the upload.
\<close>

theorem clean_rejected_episode_aborts:
  assumes "current_episode (clean_loop excl (has_hf_dataset src) 0 (take n (entries src))
                              (init_clean_state src target excl)) = Some v"
    and "scalar_of v = Some u"
    and "buffer (dst (clean_loop excl (has_hf_dataset src) 0 (take n (entries src))
                        (init_clean_state src target excl))) = []"
    and "list_all (\<lambda>ent. \<not> fills_episode (src_features src) excl (has_hf_dataset src) u ent)
                  (drop n (entries src))"
  shows "create_clean_dataset src target excl = Inl (ValueError ''no frames in the episode buffer'') \<and>
         samples_copied (clean_loop excl (has_hf_dataset src) 0 (entries src) (init_clean_state src target excl)) =
         samples_copied (clean_loop excl (has_hf_dataset src) 0 (take n (entries src))
                           (init_clean_state src target excl))"
proof -
  let ?hf = "has_hf_dataset src"
  let ?s = "clean_loop excl ?hf 0 (take n (entries src)) (init_clean_state src target excl)"
  have fo: "frame_ok (dst ?s) = src_features src"
    by (simp add: clean_loop_frame_ok init_clean_state_def)
  obtain l where stuck: "clean_loop excl ?hf (length (take n (entries src))) (drop n (entries src)) ?s = ?s\<lparr>log := l\<rparr>"
    using clean_loop_stuck [of ?s v u excl ?hf "drop n (entries src)"] assms fo by auto
  have all: "clean_loop excl ?hf 0 (entries src) (init_clean_state src target excl) = ?s\<lparr>log := l\<rparr>"
    using clean_loop_append [of excl ?hf 0 "take n (entries src)" "drop n (entries src)"] stuck by simp
  show ?thesis
    using all assms(1,3) by (simp add: create_clean_dataset_def save_final_def)
qed

theorem clean_rejected_episode_aborts_witness:
  "current_episode (clean_loop [] True 0 (take 1 [ex_entry 0, ex_entry 1, ex_entry 1])
     (init_clean_state ((ex_source True [ex_entry 0, ex_entry 1, ex_entry 1])\<lparr>src_features := (\<lambda>fr. fr \<noteq> ex_frame 0)\<rparr>)
        ''clean'' [])) = Some (VTensor [] [0]) \<and>
   buffer (dst (clean_loop [] True 0 (take 1 [ex_entry 0, ex_entry 1, ex_entry 1])
     (init_clean_state ((ex_source True [ex_entry 0, ex_entry 1, ex_entry 1])\<lparr>src_features := (\<lambda>fr. fr \<noteq> ex_frame 0)\<rparr>)
        ''clean'' []))) = [] \<and>
   list_all (\<lambda>ent. \<not> fills_episode (\<lambda>fr. fr \<noteq> ex_frame 0) [] True 0 ent) [ex_entry 1, ex_entry 1] \<and>
   create_clean_dataset ((ex_source True [ex_entry 0, ex_entry 1, ex_entry 1])\<lparr>src_features := (\<lambda>fr. fr \<noteq> ex_frame 0)\<rparr>)
     ''clean'' [] = Inl (ValueError ''no frames in the episode buffer'')"
proof -
  let ?src = "(ex_source True [ex_entry 0, ex_entry 1, ex_entry 1])\<lparr>src_features := (\<lambda>fr. fr \<noteq> ex_frame 0)\<rparr>"
  let ?s = "clean_loop [] True 0 (take 1 [ex_entry 0, ex_entry 1, ex_entry 1]) (init_clean_state ?src ''clean'' [])"
  have c: "current_episode ?s = Some (VTensor [] [0])" and b: "buffer (dst ?s) = []"
    by (simp_all add: clean_eval ex_frame_def)
  have f: "list_all (\<lambda>ent. \<not> fills_episode (\<lambda>fr. fr \<noteq> ex_frame 0) [] True 0 ent) [ex_entry 1, ex_entry 1]"
    by (simp add: fills_episode_def)
  show ?thesis
    using clean_rejected_episode_aborts [of "[]" ?src 1 "''clean''" "VTensor [] [0]" 0] c b f
    by (simp add: ex_source_def)
qed

end
