(* ===== verification/Spec2Isabelle.thy ===== *)
theory Spec2Isabelle
  imports MergeDatasets TestDataset Inference CleanProgress
begin

text \<open>
  A verification development for the four scripts of \<^verbatim>\<open>src/own_scripts/\<close>
  (repository flimdejong/lerobot). The scripts drive the external lerobot dataset library:
  \<^verbatim>\<open>clean_dataset.py\<close> copies a dataset while dropping excluded episodes and
  undecodable samples, \<^verbatim>\<open>merge_datasets.py\<close> copies a virtual concatenation of two
  datasets into one, \<^verbatim>\<open>testdataset.py\<close> scans a dataset for samples that fail to load,
  and \<^verbatim>\<open>inference.py\<close> records evaluation episodes with a trained policy. The shared
  core of the first two is the transcription loop: read each sample's
  \<^verbatim>\<open>episode_index\<close>, seal the open output episode when it changes, build a frame from
  the sample and append it.

  \<^bold>\<open>Theories.\<close>
  \<^item> \<open>Prelude\<close>: Python exceptions (\<open>exc\<close>), the outcome of a statement sequence that
    may raise half-way (the state left behind and the exception, with \<open>obind\<close> and
    \<open>olift\<close>), Python's substring test \<open>str_contains\<close>, and the abstract contract of
    the loops, \<open>runs\<close>: the maximal runs of equal keys of a keyed sequence.
  \<^item> \<open>Tensor\<close>: sample values (\<open>val\<close>: torch tensors, numpy arrays, strings, ints), arrays
    in row-major order, numpy's \<^verbatim>\<open>transpose(1, 2, 0)\<close> (\<open>chw_to_hwc\<close>),
    and the comparisons \<^verbatim>\<open>in\<close> and \<^verbatim>\<open>!=\<close> on episode indices that may be tensors or
    \<^verbatim>\<open>None\<close> (\<open>py_in\<close>, \<open>py_ne\<close>).
  \<^item> \<open>Frame\<close>: \<open>prepare_frame\<close>, lines 56--64 of \<^verbatim>\<open>clean_dataset.py\<close> (44--52 of
    \<^verbatim>\<open>merge_datasets.py\<close>): task first, bookkeeping keys dropped, tensors converted,
    channel-first images transposed.
  \<^item> \<open>Sink\<close>: the output \<^verbatim>\<open>LeRobotDataset\<close> as the scripts use it (\<open>create\<close>,
    \<open>add_frame\<close>, \<open>save_episode\<close>, \<open>push_to_hub\<close>). The library is not in the
    repository; its contract is taken from the specification: the feature schema decides
    which frames are accepted, and sealing an empty buffer raises \<open>ValueError\<close>.
  \<^item> \<open>CleanDataset\<close>: \<^verbatim>\<open>create_clean_dataset\<close> line by line: \<open>read_episode_index\<close>
    (lines 32--38), \<open>start_episode\<close> (48--53), \<open>copy_sample\<close> (56--70), the \<^verbatim>\<open>try\<close>
    body \<open>clean_body\<close> and its \<^verbatim>\<open>except\<close> clause \<open>clean_step\<close>, the loop
    \<open>clean_loop\<close> (29--74), the final seal \<open>save_final\<close> (76--80) and the whole function
    \<open>create_clean_dataset\<close> (5--88). The state is the record \<open>clean_state\<close> (the loop
    variables, the output dataset, the printed messages).
  \<^item> \<open>CleanProgress\<close>: what the \<^verbatim>\<open>try\<close>/\<^verbatim>\<open>except\<close> of the clean-up loop guarantees
    for every source: each index is counted, reported as skipped or excluded, exactly
    once (\<open>excluded_at\<close> names the \<^verbatim>\<open>continue\<close> of line 42), and every failure is
    reported whatever the other samples do.
  \<^item> \<open>MergeDatasets\<close>: \<^verbatim>\<open>main\<close> of \<^verbatim>\<open>merge_datasets.py\<close>: the virtual concatenation
    (\<open>virtual_merge\<close>, lerobot's \<^verbatim>\<open>MultiLeRobotDataset\<close>, from the specification), the
    loop \<open>merge_loop\<close> of \<open>merge_step\<close> = \<open>merge_open\<close> (lines 37--41) then
    \<open>merge_copy\<close> (44--57), the unconditional final seal \<open>merge_final\<close> (59--61) and
    \<open>merge_main\<close> (10--65), applied by \<open>merge_script\<close> (67--68) to the repositories
    \<open>DATASET_1\<close> and \<open>DATASET_2\<close> (6--8). No \<^verbatim>\<open>try\<close>: every operation returns
    \<open>exc + merge_state\<close>.
  \<^item> \<open>TestDataset\<close>: \<^verbatim>\<open>test_samples\<close> (\<open>ts_step\<close>, \<open>ts_loop\<close>, \<open>test_samples\<close>) and
    \<^verbatim>\<open>check_episodes\<close> (\<open>ce_loop\<close>, \<open>py_set_add\<close>, \<open>py_sorted\<close>, \<open>check_episodes\<close>),
    with Python's \<^verbatim>\<open>set\<close> of torch tensors hashing by identity.
  \<^item> \<open>Inference\<close>: the module body of \<^verbatim>\<open>inference.py\<close> as \<open>inference_main\<close>: the two
    names it uses without binding (\<open>bindings\<close>), the statistics renaming
    (\<open>py_replace\<close>, \<open>short_key\<close>, \<open>mapped_stats\<close>, lines 52--59), the recording loop
    \<open>record_episodes\<close> (75--90) over lerobot's \<open>record_loop\<close> (from the specification).
  \<^item> This theory: the properties that span scripts: the two copy loops compared
    (\<open>merge_matches_clean\<close>) and the skip reports of the clean-up compared with the
    scan of \<^verbatim>\<open>testdataset.py\<close> (\<open>clean_reports_what_scan_finds\<close>).

  \<^bold>\<open>What is proved.\<close> Both copy loops refine the contract \<open>runs\<close>: under the conditions
  that make the specification's reading hold (every readable row carries a scalar
  \<^verbatim>\<open>episode_index\<close>; every frame that reaches \<^verbatim>\<open>add_frame\<close> is accepted), the sealed
  episodes are the maximal runs of equal index of the samples that are copied
  (\<open>clean_refines_runs\<close>, \<open>merge_refines_runs\<close>), each by a loop invariant
  (\<open>clean_inv\<close>, \<open>merge_inv\<close>) kept by every iteration; on healthy data the two scripts
  produce the same episodes (\<open>merge_matches_clean\<close>). With no hypothesis at all, the
  totals the clean-up prints equal what its output holds (\<open>clean_totals_honest\<close>): the
  invariant \<open>counters_honest\<close> holds in every state of the inductive relation
  \<open>clean_reachable\<close>, by rule induction; every index of the source is accounted for
  once, as copied, skipped or excluded (\<open>clean_every_index_accounted\<close>), and, as a
  liveness property of the skip policy, every sample that fails to load is eventually
  reported with its index and exception whatever the others do
  (\<open>clean_reports_every_failure\<close>). Every frame is a well-formed dict
  (\<open>prepare_frame_wf\<close>), and every tensor field of a frame has the layout the
  specification asks for (\<open>prepare_frame_layout\<close>). Further lemmas show the frames in
  order, the counters, exclusion, robustness to undecodable samples, and the error
  paths, each for every input: the merge finishes only on healthy, non-empty input (no
  \<^verbatim>\<open>try\<close>, unguarded final seal: \<open>merge_finishes_only_healthy\<close>), the abort of the
  merge on one bad sample, the fusion of episodes at the junction of the two merged
  datasets, the cascade after an episode whose frames are all rejected
  (\<open>clean_rejected_episode_aborts\<close>), the missing \<^verbatim>\<open>torch\<close> import.
  \<^verbatim>\<open>test_samples\<close> returns the least failing index below its bound and reports all of
  them, the same indices the clean-up reports as skipped; \<^verbatim>\<open>check_episodes\<close> prints
  duplicates. With its two unbound names bound (as written, \<open>inference_main\<close> at
  \<open>file_bindings\<close> stops with \<open>NameError\<close> on \<^verbatim>\<open>SmolVLA\<close>), \<^verbatim>\<open>inference.py\<close> records
  and publishes the five episodes, and an empty recording ends it with the robot
  connected; on any recordings it seals the leading recordings that are non-empty and
  fit the schema, announcing each episode before recording it, and publishes and
  disconnects exactly when all five were sealed (\<open>inference_run\<close>). The renaming of
  the statistics silently drops one of two keys it renames alike
  (\<open>mapped_stats_collision\<close>). The image transposition is correct element-wise
  (\<open>chw_to_hwc_at\<close>).

  \<^bold>\<open>Modelling choices.\<close> Every loop is a structural recursion over the list of entries
  the script iterates, so no fuel is needed: each loop runs once per index. Element
  values of tensors are \<open>int\<close>: they are only moved. Printing is kept as a log of
  messages, since the specification makes the skip reports observable. External
  services (robot and camera drivers, the policy, the keyboard listener, rerun, the hub)
  are not modelled: their results are inputs of the model (the source entries, the
  feature schema, the statistics, the frames each recording yields).

  \<^bold>\<open>Not modelled.\<close> The lerobot library itself (video decoding, parquet storage,
  statistics, the hub) beyond the call contracts of \<open>Sink\<close>, \<open>virtual_merge\<close> and
  \<open>record_loop\<close>; the robot, cameras, policy, keyboard listener and rerun of
  \<^verbatim>\<open>inference.py\<close>, which the script only calls; exceptions raised by those calls other
  than the ones the contracts name. Timing (\<^verbatim>\<open>EPISODE_TIME_SEC\<close>, \<^verbatim>\<open>FPS\<close> of the
  recording loop) is not observable in the model.
\<close>

section \<open>The two copy loops agree\<close>

text \<open>
  A source index whose parquet row and decoded sample both load and carry the same
  0-dimensional \<^verbatim>\<open>episode_index\<close> tensor, as lerobot's datasets do.
\<close>

definition row_matches_sample :: "entry \<Rightarrow> bool" where
  "row_matches_sample ent =
     (case ent of
        (Inr r, Inr s) \<Rightarrow>
          (case map_of s ''episode_index'' of
             Some (VTensor [] [k]) \<Rightarrow> map_of r ''episode_index'' = Some (VTensor [] [k])
           | _ \<Rightarrow> False)
      | _ \<Rightarrow> False)"

lemma row_matches_keep:
  assumes "row_matches_sample ent"
  shows "keep [] True ent = merge_keyed (snd ent)" and "scalar_index True ent"
proof -
  obtain r s k where ent: "ent = (Inr r, Inr s)" and sk: "map_of s ''episode_index'' = Some (VTensor [] [k])"
    and rk: "map_of r ''episode_index'' = Some (VTensor [] [k])"
    using assms by (auto simp: row_matches_sample_def
        split: prod.split_asm sum.split_asm option.split_asm val.split_asm list.split_asm)
  show "keep [] True ent = merge_keyed (snd ent)"
    using ent sk rk by (simp add: keep_def keyed_sample_def read_episode_index_def merge_keyed_def
        sample_episode_def split: sum.split)
  show "scalar_index True ent"
    using ent rk by (simp add: scalar_index_def read_episode_index_def)
qed

lemma row_matches_transcribed:
  "list_all row_matches_sample ents \<Longrightarrow> transcribed [] True ents = merge_transcribed (map snd ents)"
  by (induction ents) (simp_all add: transcribed_Cons merge_transcribed_Cons row_matches_keep)

lemma row_matches_accepted:
  "row_matches_sample ent \<Longrightarrow> merge_ok feats (snd ent) \<Longrightarrow> accepted feats [] True ent"
  using row_matches_keep(1) [of ent]
  by (auto simp: accepted_def merge_ok_def keep_def split: option.splits sum.splits)

text \<open>
  Claim C3. Equivalence of the two scripts' loops: on two datasets whose samples are all
  healthy and whose rows agree with their samples, \<^verbatim>\<open>merge_datasets.main\<close> seals the same
  episodes as \<^verbatim>\<open>create_clean_dataset\<close> run on the concatenated dataset with no exclusions.
\<close>

theorem merge_matches_clean:
  assumes "list_all row_matches_sample (entries ds1 @ entries ds2)"
    and "list_all (merge_ok (src_features ds1)) (map snd (entries ds1) @ map snd (entries ds2))"
    and "entries ds1 @ entries ds2 \<noteq> []"
    and "has_hf_dataset src" and "entries src = entries ds1 @ entries ds2"
    and "src_features src = src_features ds1"
  shows "\<exists>st st'. merge_main ds1 ds2 = Inr st \<and> create_clean_dataset src target [] = Inr st' \<and>
           episodes (m_dst st) = episodes (dst st')"
proof -
  have ok: "list_all (merge_ok (src_features ds1)) (virtual_merge [map snd (entries ds1), map snd (entries ds2)])"
    using assms(2) by (simp only: merge_ok_virtual)
  have ne: "virtual_merge [map snd (entries ds1), map snd (entries ds2)] \<noteq> []"
    using assms(3) by (simp add: virtual_merge_Nil_iff)
  obtain st where m: "merge_main ds1 ds2 = Inr st"
    and me: "episodes (m_dst st) = map snd (runs (merge_transcribed (map snd (entries ds1) @ map snd (entries ds2))))"
    using merge_main_result [OF ok ne] by (auto simp only: merge_transcribed_virtual)
  have si: "list_all (scalar_index True) (entries src)"
    using assms(1,5) by (simp add: list_all_iff row_matches_keep)
  have ac: "list_all (accepted (src_features src) [] True) (entries src)"
    unfolding list_all_iff
  proof
    fix ent assume "ent \<in> set (entries src)"
    with assms(1,2,5) have "row_matches_sample ent" and "merge_ok (src_features ds1) (snd ent)"
      by (auto simp: list_all_iff)
    with assms(6) show "accepted (src_features src) [] True ent" by (simp add: row_matches_accepted)
  qed
  obtain st' where c: "create_clean_dataset src target [] = Inr st'"
    and ce: "episodes (dst st') = map snd (runs (transcribed [] True (entries src)))"
    using create_clean_dataset_result [of src "[]" target] si ac assms(4) by auto
  have "transcribed [] True (entries src) = merge_transcribed (map snd (entries ds1) @ map snd (entries ds2))"
    using row_matches_transcribed [of "entries src"] assms(1,5) by simp
  with m me c ce show ?thesis by auto
qed

theorem merge_matches_clean_witness:
  "list_all row_matches_sample ([ex_entry 0, ex_entry 0] @ [ex_entry 1]) \<and>
   list_all (merge_ok (\<lambda>fr. True)) (map snd [ex_entry 0, ex_entry 0] @ map snd [ex_entry 1]) \<and>
   (\<exists>st st'. merge_main (ex_source True [ex_entry 0, ex_entry 0]) (ex_source True [ex_entry 1]) = Inr st \<and>
      create_clean_dataset (ex_source True [ex_entry 0, ex_entry 0, ex_entry 1]) ''clean'' [] = Inr st' \<and>
      episodes (m_dst st) = episodes (dst st'))"
proof -
  have r: "row_matches_sample (ex_entry e)" for e
    by (simp add: row_matches_sample_def ex_entry_def ex_sample_def)
  have k: "merge_ok (\<lambda>fr. True) (snd (ex_entry e))" for e
    by (simp add: ex_entry_def merge_ok_def merge_keyed_def sample_episode_def ex_sample_def prepare_frame_def
        add_item_def bookkeeping_keys_def frame_value_def)
  show ?thesis
    using merge_matches_clean [of "ex_source True [ex_entry 0, ex_entry 0]" "ex_source True [ex_entry 1]"
        "ex_source True [ex_entry 0, ex_entry 0, ex_entry 1]" "''clean''"]
    by (simp add: r k)
qed

section \<open>The clean-up and the scan agree on corrupted samples\<close>

text \<open>
  Claim C9. When every parquet row loads with a scalar \<^verbatim>\<open>episode_index\<close> and every decodable
  frame is accepted, \<^verbatim>\<open>create_clean_dataset\<close> with no exclusions reports as skipped
  exactly the indices whose sample fails to load, in increasing order, and
  \<^verbatim>\<open>test_samples\<close> over the whole dataset returns the first of them.
\<close>

theorem clean_reports_what_scan_finds:
  assumes "has_hf_dataset src" and "list_all (\<lambda>ent. \<not> isl (fst ent)) (entries src)"
    and "list_all (scalar_index True) (entries src)"
    and "list_all (accepted (src_features src) [] True) (entries src)"
  shows "\<exists>st. create_clean_dataset src target [] = Inr st \<and>
           skipped_indices (log st) = filter (\<lambda>i. isl (snd (entries src ! i))) [0..<length (entries src)] \<and>
           fst (test_samples src None) = (case skipped_indices (log st) of [] \<Rightarrow> None | i # _ \<Rightarrow> Some i)"
proof -
  let ?st = "clean_loop [] True 0 (entries src) (init_clean_state src target [])"
  have sk: "skipped_indices (log ?st) = filter (\<lambda>i. isl (snd (entries src ! i))) [0..<length (entries src)]"
    using clean_loop_skipped [OF assms(2,3) _ clean_inv_init [of src target]] assms(4)
    by (simp add: init_clean_state_def)
  obtain st where c: "create_clean_dataset src target [] = Inr st"
    using create_clean_dataset_result [of src "[]" target] assms by auto
  then obtain st' where sf: "save_final ?st = Inr st'"
    and st: "skipped_indices (log st) = skipped_indices (log st')"
    using assms(1) by (auto simp: create_clean_dataset_def split: sum.splits)
  have "skipped_indices (log st) = filter (\<lambda>i. isl (snd (entries src ! i))) [0..<length (entries src)]"
    using save_final_skipped [OF sf] sk st by simp
  moreover have "fst (test_samples src None) =
      (case filter (\<lambda>i. isl (snd (entries src ! i))) [0..<length (entries src)] of [] \<Rightarrow> None | i # _ \<Rightarrow> Some i)"
    using test_samples_parts [of src None] by (auto simp: test_count_def split: list.splits)
  ultimately show ?thesis using c by auto
qed

theorem clean_reports_what_scan_finds_witness:
  "list_all (\<lambda>ent. \<not> isl (fst ent)) [ex_entry 0, ex_broken 0, ex_entry 1, ex_broken 1] \<and>
   (\<exists>st. create_clean_dataset (ex_source True [ex_entry 0, ex_broken 0, ex_entry 1, ex_broken 1]) ''clean'' [] = Inr st \<and>
      skipped_indices (log st) = [1, 3] \<and>
      fst (test_samples (ex_source True [ex_entry 0, ex_broken 0, ex_entry 1, ex_broken 1]) None) = Some 1)"
proof -
  have f: "\<not> isl (fst (ex_entry e))" "\<not> isl (fst (ex_broken e))" "\<not> isl (snd (ex_entry e))"
    "isl (snd (ex_broken e))" for e
    by (simp_all add: ex_entry_def ex_broken_def)
  show ?thesis
    using clean_reports_what_scan_finds [of "ex_source True [ex_entry 0, ex_broken 0, ex_entry 1, ex_broken 1]" "''clean''"]
    by (auto simp: f upt_rec numeral_3_eq_3)
qed

end
